theory Spec2Isabelle
  imports Main "HOL-Library.Sublist" "HOL-Library.AList" "HOL-Library.Word"
begin

unbundle bit_operations_syntax

section \<open>Python values used by the sources\<close>

text \<open>
  Strings are \<^typ>\<open>string\<close>: lists of characters, a character being a code point
  below 256 (the Latin-1 range of Python's \<^verbatim>\<open>str\<close>). Every separator, prefix and tag
  that the sources test for is ASCII. An exception raised by the Python code is a value
  of \<open>error\<close>, returned on the left of a sum; \<open>OSError\<close> stands for the errors of the
  file system (a missing file, a file where a directory is needed, a refused
  permission), \<open>YAMLError\<close> for a file that is not an index, \<open>DatabaseError\<close> for a
  store that cannot be opened or written.
\<close>

datatype error =
    ValueError string
  | KeyError string
  | AttributeError
  | IndexError
  | MultipleObjectsFoundError
  | OSError
  | YAMLError
  | DatabaseError

text \<open>
  \<^verbatim>\<open>s.split(sep)\<close> and \<^verbatim>\<open>s.split(sep, maxsplit)\<close>: the text is scanned from the left,
  every occurrence of the separator found that way ends a piece, and after \<open>maxsplit\<close>
  cuts the rest is one piece. \<open>None\<close> is Python's default (no limit). Python raises
  ValueError on an empty separator; the sources only pass the literals
  \<^verbatim>\<open>'://'\<close>, \<^verbatim>\<open>'/'\<close>, \<^verbatim>\<open>':'\<close> and \<^verbatim>\<open>','\<close>.
\<close>

function str_split :: "string \<Rightarrow> nat option \<Rightarrow> string \<Rightarrow> string list" where
  "str_split sep maxsplit s =
     (if maxsplit = Some 0 then [s]
      else (case s of
              [] \<Rightarrow> [[]]
            | c # cs \<Rightarrow>
                if sep \<noteq> [] \<and> prefix sep s
                then [] # str_split sep (map_option (\<lambda>n. n - 1) maxsplit) (drop (length sep) s)
                else (case str_split sep maxsplit cs of
                        w # ws \<Rightarrow> (c # w) # ws
                      | [] \<Rightarrow> [[c]])))"
  by pat_completeness auto
termination
  by (relation "measure (\<lambda>(sep, m, s). length s)") auto

declare str_split.simps [simp del]

text \<open>\<^verbatim>\<open>s.startswith(p)\<close>.\<close>

definition startswith :: "string \<Rightarrow> string \<Rightarrow> bool" where
  "startswith s p = prefix p s"

section \<open>Service URIs (\<^verbatim>\<open>quest/util/misc.py\<close>)\<close>

text \<open>
  \<^verbatim>\<open>construct_service_uri(provider, service, feature=None)\<close>:
  \<^verbatim>\<open>'svc://{}:{}'.format(provider, service)\<close>, followed by \<^verbatim>\<open>'/'\<close> and the feature
  when one is given.
\<close>

definition construct_service_uri :: "string \<Rightarrow> string \<Rightarrow> string option \<Rightarrow> string" where
  "construct_service_uri provider service feature =
     (let uri = ''svc://'' @ provider @ '':'' @ service
      in case feature of None \<Rightarrow> uri | Some f \<Rightarrow> uri @ ''/'' @ f)"

text \<open>
  \<^verbatim>\<open>(xs + [None])[:2]\<close> unpacked into two names: the pieces of a split, padded with
  \<open>None\<close> and cut to two. The unpacking raises ValueError unless exactly two values
  are there.
\<close>

definition pad2 :: "string list \<Rightarrow> error + (string option \<times> string option)" where
  "pad2 xs =
     (case take 2 (map Some xs @ [None]) of
        [a, b] \<Rightarrow> Inr (a, b)
      | _ \<Rightarrow> Inl (ValueError ''not enough values to unpack''))"

text \<open>\<^verbatim>\<open>xs[-1]\<close>: the last element, IndexError on an empty list.\<close>

definition last_item :: "'a list \<Rightarrow> error + 'a" where
  "last_item xs = (if xs = [] then Inl IndexError else Inr (last xs))"

text \<open>
  \<^verbatim>\<open>parse_service_uri(uri)\<close>:
  \<^verbatim>\<open>svc, feature = (uri.split('://')[-1].split('/', 1) + [None])[:2]\<close>, then
  \<^verbatim>\<open>provider, service = (svc.split(':') + [None])[:2]\<close>. A \<open>None\<close> in the place of
  \<open>svc\<close> would make \<^verbatim>\<open>svc.split\<close> raise AttributeError.
\<close>

definition parse_service_uri ::
  "string \<Rightarrow> error + (string option \<times> string option \<times> string option)" where
  "parse_service_uri uri =
     (case last_item (str_split ''://'' None uri) of
        Inl e \<Rightarrow> Inl e
      | Inr rest \<Rightarrow>
          (case pad2 (str_split ''/'' (Some 1) rest) of
             Inl e \<Rightarrow> Inl e
           | Inr (None, feature) \<Rightarrow> Inl AttributeError
           | Inr (Some svc, feature) \<Rightarrow>
               (case pad2 (str_split '':'' None svc) of
                  Inl e \<Rightarrow> Inl e
                | Inr (provider, service) \<Rightarrow> Inr (provider, service, feature))))"

section \<open>Identifiers (\<^verbatim>\<open>quest/util/misc.py\<close>, with Python's \<^verbatim>\<open>uuid.UUID\<close>)\<close>

text \<open>
  \<^verbatim>\<open>s.replace(old, new)\<close> for a non-empty \<open>old\<close>: occurrences are replaced from the
  left, without overlap.
\<close>

function str_replace :: "string \<Rightarrow> string \<Rightarrow> string \<Rightarrow> string" where
  "str_replace old new s =
     (case s of
        [] \<Rightarrow> []
      | c # cs \<Rightarrow>
          if old \<noteq> [] \<and> prefix old s
          then new @ str_replace old new (drop (length old) s)
          else c # str_replace old new cs)"
  by pat_completeness auto
termination
  by (relation "measure (\<lambda>(old, new, s). length s)") auto

declare str_replace.simps [simp del]

text \<open>\<^verbatim>\<open>s.strip(chars)\<close>: leading and trailing characters of the set \<open>chars\<close> are dropped.\<close>

definition str_strip_chars :: "string \<Rightarrow> string \<Rightarrow> string" where
  "str_strip_chars chars s =
     rev (dropWhile (\<lambda>c. c \<in> set chars) (rev (dropWhile (\<lambda>c. c \<in> set chars) s)))"

text \<open>
  \<^verbatim>\<open>s.strip()\<close>: the same for white space; the ASCII characters that Python counts as
  white space are listed.
\<close>

definition whitespace :: string where
  "whitespace = map char_of [9, 10, 11, 12, 13, 28, 29, 30, 31, 32 :: nat]"

definition str_strip :: "string \<Rightarrow> string" where
  "str_strip s = str_strip_chars whitespace s"

text \<open>
  The value of a hexadecimal digit as \<^verbatim>\<open>int(text, 16)\<close> reads it (both cases), and the
  digit that \<^verbatim>\<open>'%x'\<close> writes for a value below sixteen (lower case).
\<close>

definition hex_val :: "char \<Rightarrow> int option" where
  "hex_val c =
     map_of (zip ''0123456789abcdef'' [0, 1, 2, 3, 4, 5, 6, 7, 8, 9, 10, 11, 12, 13, 14, 15]
             @ zip ''ABCDEF'' [10, 11, 12, 13, 14, 15]) c"

definition hex_char :: "int \<Rightarrow> char" where
  "hex_char d = ''0123456789abcdef'' ! nat d"

text \<open>
  \<^verbatim>\<open>int(text, 16)\<close> on a run of hexadecimal digits, read from the left (\<open>hex_step\<close> takes
  in one digit); \<open>None\<close> stands for the ValueError.
  Python's \<^verbatim>\<open>int\<close> also reads a sign, a \<^verbatim>\<open>0x\<close> prefix, underscores between digits
  and surrounding blanks. \<^verbatim>\<open>is_uuid\<close> compares the text with 32 digits written by
  \<^verbatim>\<open>'%032x'\<close>, so for a text in one of those forms it answers False whether the
  constructor raises or not; they are left as ValueError here.
\<close>

definition hex_step :: "int option \<Rightarrow> char \<Rightarrow> int option" where
  "hex_step acc c =
     (case (acc, hex_val c) of
        (Some a, Some d) \<Rightarrow> Some (16 * a + d)
      | _ \<Rightarrow> None)"

definition py_int16 :: "string \<Rightarrow> int option" where
  "py_int16 s = (if s = [] then None else foldl hex_step (Some 0) s)"

text \<open>
  \<^verbatim>\<open>UUID.__init__\<close> with \<^verbatim>\<open>version\<close> given: the variant bits are set to RFC 4122 and
  the version nibble to \<open>version\<close>:
  \<^verbatim>\<open>int &= ~(0xc000 << 48); int |= 0x8000 << 48; int &= ~(0xf000 << 64); int |= version << 76\<close>.
\<close>

definition set_version :: "int \<Rightarrow> int \<Rightarrow> int" where
  "set_version version n =
     (let n1 = n AND NOT (push_bit 48 0xc000);
          n2 = n1 OR push_bit 48 0x8000;
          n3 = n2 AND NOT (push_bit 64 0xf000);
          n4 = n3 OR push_bit 76 version
      in n4)"

text \<open>
  \<^verbatim>\<open>UUID(hex, version=4)\<close>, giving the \<^verbatim>\<open>int\<close> of the object:
  \<^verbatim>\<open>hex = hex.replace('urn:', '').replace('uuid:', '')\<close>,
  \<^verbatim>\<open>hex = hex.strip('{}').replace('-', '')\<close>, ValueError unless 32 characters are left,
  then \<^verbatim>\<open>int(hex, 16)\<close> and the version bits.
\<close>

definition UUID_of_hex :: "string \<Rightarrow> error + int" where
  "UUID_of_hex hex =
     (let hex1 = str_replace ''uuid:'' '''' (str_replace ''urn:'' '''' hex);
          hex2 = str_replace ''-'' '''' (str_strip_chars ''{}'' hex1)
      in if length hex2 \<noteq> 32
         then Inl (ValueError ''badly formed hexadecimal UUID string'')
         else (case py_int16 hex2 of
                 None \<Rightarrow> Inl (ValueError ''invalid literal for int() with base 16'')
               | Some n \<Rightarrow> Inr (set_version 4 n)))"

text \<open>
  \<^verbatim>\<open>'%x' % n\<close> for \<open>n \<ge> 0\<close>, and \<^verbatim>\<open>UUID.hex\<close>, which is \<^verbatim>\<open>'%032x' % self.int\<close>:
  the digits, filled with zeros on the left up to 32 characters (a negative number
  would carry its sign first; a UUID's \<^verbatim>\<open>int\<close> is never negative).
\<close>

function hex_digits :: "int \<Rightarrow> string" where
  "hex_digits n =
     (if n < 16 then [hex_char n] else hex_digits (n div 16) @ [hex_char (n mod 16)])"
  by pat_completeness auto
termination
  by (relation "measure nat") auto

declare hex_digits.simps [simp del]

definition UUID_hex :: "int \<Rightarrow> string" where
  "UUID_hex n =
     (let sign = (if n < 0 then ''-'' else '''');
          ds = hex_digits \<bar>n\<bar>
      in sign @ replicate (32 - length sign - length ds) CHR ''0'' @ ds)"

text \<open>
  \<^verbatim>\<open>is_uuid(uuid)\<close>: False when the constructor raises ValueError, else
  \<^verbatim>\<open>val.hex == uuid\<close>.
\<close>

definition is_uuid :: "string \<Rightarrow> bool" where
  "is_uuid uuid =
     (case UUID_of_hex uuid of
        Inl e \<Rightarrow> False
      | Inr val \<Rightarrow> UUID_hex val = uuid)"

text \<open>
  \<^verbatim>\<open>uuid4()\<close> is \<^verbatim>\<open>UUID(bytes=os.urandom(16), version=4)\<close>: the sixteen random bytes are
  read as one big-endian number and the version bits are set. The random bytes are
  the argument \<open>rnd\<close>.
\<close>

definition uuid4 :: "128 word \<Rightarrow> int" where
  "uuid4 rnd = set_version 4 (uint rnd)"

text \<open>
  \<^verbatim>\<open>uuid(resource_type)\<close>: \<^verbatim>\<open>uuid4().hex\<close>, with the first character replaced by
  \<^verbatim>\<open>'f'\<close> for a feature and by \<^verbatim>\<open>'d'\<close> for a dataset.
\<close>

definition uuid :: "string \<Rightarrow> 128 word \<Rightarrow> string" where
  "uuid resource_type rnd =
     (let u0 = UUID_hex (uuid4 rnd);
          u1 = (if resource_type = ''feature'' then ''f'' @ drop 1 u0 else u0);
          u2 = (if resource_type = ''dataset'' then ''d'' @ drop 1 u1 else u1)
      in u2)"

section \<open>Classification of URIs (\<^verbatim>\<open>quest/util/misc.py\<close>)\<close>

text \<open>
  \<^verbatim>\<open>listify(liststr, delimiter=',')\<close> on the two kinds of argument that
  \<^verbatim>\<open>classify_uris\<close> documents: a list is returned as it is, a string is split at
  the delimiter and each piece stripped.
\<close>

datatype uris_arg = UriList "string list" | UriStr string

definition listify :: "uris_arg \<Rightarrow> string list" where
  "listify liststr =
     (case liststr of
        UriList xs \<Rightarrow> xs
      | UriStr s \<Rightarrow> map str_strip (str_split '','' None s))"

text \<open>
  The data frame is a list of rows \<open>(uri, type)\<close>; a boolean index is a list of
  booleans, one per row; \<^verbatim>\<open>df['type'][idx] = v\<close> overwrites the type of the rows the index
  marks.
\<close>

definition assign_where :: "bool list \<Rightarrow> string \<Rightarrow> string list \<Rightarrow> string list" where
  "assign_where idx v col = map (\<lambda>(m, t). if m then v else t) (zip idx col)"

definition classify_df :: "string list \<Rightarrow> (string \<times> string) list" where
  "classify_df uris =
     (let col0 = map (\<lambda>u. ''collections'') uris;
          uuid_idx = map is_uuid uris;
          service_idx = map (\<lambda>u. startswith u ''svc://'') uris;
          publish_idx = map (\<lambda>u. startswith u ''pub://'') uris;
          feature_idx = map (\<lambda>(a, b). a \<and> b) (zip uuid_idx (map (\<lambda>u. startswith u ''f'') uris));
          dataset_idx = map (\<lambda>(a, b). a \<and> b) (zip uuid_idx (map (\<lambda>u. startswith u ''d'') uris));
          col1 = assign_where service_idx ''services'' col0;
          col2 = assign_where publish_idx ''publishers'' col1;
          col3 = assign_where feature_idx ''features'' col2;
          col4 = assign_where dataset_idx ''datasets'' col3
      in zip uris col4)"

text \<open>
  \<^verbatim>\<open>df.groupby('type').groups\<close>: for each type that occurs, in sorted order, the uris
  of its rows. The type column only ever holds the five names below.
\<close>

definition type_names :: "string list" where
  "type_names = [''collections'', ''datasets'', ''features'', ''publishers'', ''services'']"

definition groups :: "(string \<times> string) list \<Rightarrow> (string \<times> string list) list" where
  "groups df =
     map (\<lambda>t. (t, map fst (filter (\<lambda>row. snd row = t) df)))
       (filter (\<lambda>t. t \<in> set (map snd df)) type_names)"

datatype classified =
    Frame "(string \<times> string) list"
  | GroupBy "(string \<times> string list) list"
  | Groups "(string \<times> string list) list"

text \<open>
  \<^verbatim>\<open>classify_uris(uris, grouped=True, as_dataframe=True, require_same_type=False,
  exclude=None)\<close>.
\<close>

definition classify_uris ::
  "uris_arg \<Rightarrow> bool \<Rightarrow> bool \<Rightarrow> bool \<Rightarrow> string list option \<Rightarrow> error + classified" where
  "classify_uris uris grouped as_dataframe require_same_type exclude =
     (let df = classify_df (listify uris);
          grouped_df = groups df
      in case (case exclude of
                 None \<Rightarrow> None
               | Some ex \<Rightarrow> find (\<lambda>uri_type. uri_type \<in> set (map fst grouped_df)) ex) of
           Some uri_type \<Rightarrow> Inl (ValueError (''Uris for '' @ uri_type @ '' are not allowed.''))
         | None \<Rightarrow>
             if require_same_type \<and> length grouped_df > 1
             then Inl (ValueError ''All uris must be of the same type'')
             else if \<not> as_dataframe then Inr (Groups grouped_df)
             else if grouped then Inr (GroupBy grouped_df)
             else Inr (Frame df))"

text \<open>
  For the statements below. A token as \<^verbatim>\<open>uuid4().hex\<close> writes it: 32 characters, each a
  lower-case hexadecimal digit, the version digit (position 12) a \<^verbatim>\<open>4\<close> and the variant
  digit (position 16) one of \<^verbatim>\<open>8\<close>, \<^verbatim>\<open>9\<close>, \<^verbatim>\<open>a\<close>, \<^verbatim>\<open>b\<close>.
\<close>

definition uuid4_token :: "string \<Rightarrow> bool" where
  "uuid4_token s =
     (length s = 32 \<and> set s \<subseteq> set ''0123456789abcdef''
      \<and> s ! 12 = CHR ''4'' \<and> s ! 16 \<in> set ''89ab'')"

text \<open>
  The type that \<^verbatim>\<open>classify_uris\<close> is specified to give a uri, with the tests in the order
  of the specification.
\<close>

definition uri_type :: "string \<Rightarrow> string" where
  "uri_type u =
     (if is_uuid u \<and> startswith u ''f'' then ''features''
      else if is_uuid u \<and> startswith u ''d'' then ''datasets''
      else if startswith u ''svc://'' then ''services''
      else if startswith u ''pub://'' then ''publishers''
      else ''collections'')"

text \<open>
  For the proofs: the digit of weight \<open>16 ^ k\<close> of a number, and its \<open>k\<close> lowest
  hexadecimal digits written out.
\<close>

definition nibble :: "nat \<Rightarrow> int \<Rightarrow> int" where
  "nibble k n = take_bit 4 (drop_bit (4 * k) n)"

fun fixed_hex :: "nat \<Rightarrow> int \<Rightarrow> string" where
  "fixed_hex 0 n = []"
| "fixed_hex (Suc k) n = fixed_hex k (n div 16) @ [hex_char (n mod 16)]"

section \<open>The project registry (\<^verbatim>\<open>quest/api/projects.py\<close>)\<close>

subsection \<open>What the functions act on\<close>

text \<open>
  The functions of \<^verbatim>\<open>projects.py\<close> act on the file system: on directories, on the index
  file \<^verbatim>\<open>project_index.yml\<close> in the projects directory, and on the per-project stores
  \<^verbatim>\<open>metadata.db\<close>. The state is that file system.

  \<^item> \<open>projects_dir\<close> is what \<^verbatim>\<open>util.get_projects_dir()\<close> returns.
  \<^item> \<open>dirs\<close> is the set of the directories that exist and \<open>files\<close> gives the content of
    the file at a path (\<open>None\<close>: no file there). Paths are taken as the code writes
    them: two strings name the same place only when they are equal, and one place lies
    below another when its string continues the other after a \<^verbatim>\<open>/\<close> (no \<^verbatim>\<open>.\<close> or
    \<^verbatim>\<open>..\<close> components, no symbolic links).
  \<^item> \<open>denied\<close> is the set of the paths that the process may neither create nor write.
  \<^item> \<open>connection\<close> is the store that \<^verbatim>\<open>get_db\<close> last connected to.

  A file is an index (a mapping with the optional keys \<^verbatim>\<open>active_project\<close>, a name, and
  \<^verbatim>\<open>projects\<close>, a list of pairs (name, folder) in the order of the dictionary; \<open>None\<close>
  stands for a missing key or a null value), a store (the rows of its \<^verbatim>\<open>Project\<close>
  table), or anything else.
\<close>

type_synonym path = string

record project =
  display_name :: string
  description :: string
  metadata :: "(string \<times> string) list"

datatype content =
    Yaml "string option" "(string \<times> path) list option"
  | Db "project list"
  | Other

record state =
  projects_dir :: path
  dirs :: "path set"
  files :: "path \<Rightarrow> content option"
  denied :: "path set"
  connection :: "path option"

definition PROJECT_DB_FILE :: string where
  "PROJECT_DB_FILE = ''metadata.db''"

definition PROJECT_INDEX_FILE :: string where
  "PROJECT_INDEX_FILE = ''project_index.yml''"

subsection \<open>Python and operating-system functions\<close>

text \<open>
  \<^verbatim>\<open>name.lower()\<close>: the capital letters below code point 256 are \<^verbatim>\<open>A\<close> to \<^verbatim>\<open>Z\<close> and the
  code points 192 to 222 without 215 (the multiplication sign); each has its small
  letter 32 places further.
\<close>

definition lower_char :: "char \<Rightarrow> char" where
  "lower_char c =
     (let n = (of_char c :: nat)
      in if (65 \<le> n \<and> n \<le> 90) \<or> (192 \<le> n \<and> n \<le> 222 \<and> n \<noteq> 215) then char_of (n + 32)
         else c)"

definition lower :: "string \<Rightarrow> string" where
  "lower s = map lower_char s"

text \<open>
  \<^verbatim>\<open>os.path.isabs\<close>, \<^verbatim>\<open>os.path.join\<close> of two components and \<^verbatim>\<open>os.path.dirname\<close>
  (POSIX). \<open>parents p\<close> lists the directories above \<open>p\<close>, the outermost first; the root
  is taken to exist.
\<close>

definition isabs :: "path \<Rightarrow> bool" where
  "isabs p = prefix ''/'' p"

definition path_join :: "path \<Rightarrow> path \<Rightarrow> path" where
  "path_join a b =
     (if prefix ''/'' b then b
      else if a = [] \<or> last a = CHR ''/'' then a @ b
      else a @ ''/'' @ b)"

definition dirname :: "path \<Rightarrow> path" where
  "dirname p =
     (let head = dropWhile (\<lambda>c. c \<noteq> CHR ''/'') (rev p);
          stripped = dropWhile (\<lambda>c. c = CHR ''/'') head
      in if stripped = [] then rev head else rev stripped)"

definition parents :: "path \<Rightarrow> path list" where
  "parents p = map (\<lambda>i. take i p) (filter (\<lambda>i. p ! i = CHR ''/'') [1..<length p])"

text \<open>
  \<^verbatim>\<open>os.path.exists\<close>; \<^verbatim>\<open>util.mkdir_if_doesnt_exist\<close>, which is
  \<^verbatim>\<open>os.makedirs(path, exist_ok=True)\<close>; and \<^verbatim>\<open>shutil.rmtree\<close>.

  Nothing is done for a directory that exists. Otherwise \<open>makedirs\<close> goes down the list
  of the directories to make, the path last. One that exists is passed; one that is a
  file, or that may not be created, raises, and the directories made so far stay. The
  empty path raises.

  \<open>under p q\<close>: the path \<open>q\<close> is \<open>p\<close> or lies below it. \<open>rmtree\<close> raises on a path that is
  not a directory; else it removes every directory and every file under the path, the
  index file as any other.
\<close>

definition path_exists :: "path \<Rightarrow> state \<Rightarrow> bool" where
  "path_exists p s = (p \<in> dirs s \<or> files s p \<noteq> None)"

fun makedirs :: "path list \<Rightarrow> state \<Rightarrow> (error + unit) \<times> state" where
  "makedirs [] s = (Inr (), s)"
| "makedirs (q # qs) s =
     (if q \<in> dirs s then makedirs qs s
      else if files s q \<noteq> None \<or> q \<in> denied s then (Inl OSError, s)
      else makedirs qs (s\<lparr>dirs := insert q (dirs s)\<rparr>))"

definition mkdir_if_doesnt_exist :: "path \<Rightarrow> state \<Rightarrow> (error + unit) \<times> state" where
  "mkdir_if_doesnt_exist p s =
     (if p \<in> dirs s then (Inr (), s)
      else if p = [] then (Inl OSError, s)
      else makedirs (parents p @ [p]) s)"

definition under :: "path \<Rightarrow> path \<Rightarrow> bool" where
  "under p q = (q = p \<or> prefix (path_join p []) q)"

definition rmtree :: "path \<Rightarrow> state \<Rightarrow> (error + unit) \<times> state" where
  "rmtree p s =
     (if p \<notin> dirs s then (Inl OSError, s)
      else (Inr (), s\<lparr>dirs := {q \<in> dirs s. \<not> under p q},
                       files := (\<lambda>q. if under p q then None else files s q)\<rparr>))"

text \<open>
  Dictionary operations on the list of pairs: \<^verbatim>\<open>name in projects.keys()\<close> is
  \<open>name \<in> set (map fst projects)\<close>, \<^verbatim>\<open>projects[name]\<close> is \<open>map_of projects name\<close>,
  \<^verbatim>\<open>projects.update({name: v})\<close> is \<^const>\<open>AList.update\<close> (the value is replaced in place, a
  new key goes to the end), \<^verbatim>\<open>del projects[name]\<close> and \<^verbatim>\<open>projects.pop(name)\<close> are
  \<^const>\<open>AList.delete\<close>, behind the test that the key is there.
\<close>

subsection \<open>The index file\<close>

text \<open>
  Modelled from the spec: \<^verbatim>\<open>util.read_yaml\<close>, \<^verbatim>\<open>util.write_yaml\<close> and
  \<^verbatim>\<open>util.get_projects_dir\<close> with the settings behind it are not among the sources. The
  specification gives the layout of what they read and write: the index file
  \<^verbatim>\<open>project_index.yml\<close> in the projects directory is a mapping with the keys
  \<^verbatim>\<open>active_project\<close> and \<^verbatim>\<open>projects\<close>, and failures of the file system are immediate
  (path missing, permission denied). \<open>read_yaml\<close> gives the mapping of an index file and
  raises on a missing file and on a file that is no index. \<open>write_yaml\<close> replaces the
  content of the file; it raises when the path may not be written, and for a new file
  also when the path is a directory or the directory of the file is missing.
\<close>

definition index_file :: "state \<Rightarrow> path" where
  "index_file s = path_join (projects_dir s) PROJECT_INDEX_FILE"

definition read_yaml ::
  "path \<Rightarrow> state \<Rightarrow> error + (string option \<times> (string \<times> path) list option)" where
  "read_yaml p s =
     (case files s p of
        None \<Rightarrow> Inl OSError
      | Some (Yaml active projects) \<Rightarrow> Inr (active, projects)
      | Some c \<Rightarrow> Inl YAMLError)"

definition write_yaml ::
  "path \<Rightarrow> string option \<times> (string \<times> path) list option \<Rightarrow> state \<Rightarrow> (error + unit) \<times> state" where
  "write_yaml p contents s =
     (if p \<in> denied s \<or> (files s p = None \<and> (p \<in> dirs s \<or> dirname p \<notin> dirs s))
      then (Inl OSError, s)
      else (Inr (), s\<lparr>files := (files s)(p \<mapsto> Yaml (fst contents) (snd contents))\<rparr>))"

subsection \<open>The store of a project\<close>

text \<open>
  Modelled from the spec: the module \<^verbatim>\<open>quest/api/database.py\<close> (\<^verbatim>\<open>init_db\<close>, \<^verbatim>\<open>get_db\<close>,
  \<^verbatim>\<open>db_session\<close>, the entity \<^verbatim>\<open>Project\<close>) is not among the sources. The specification
  describes the store as a collaborator that can be opened at a path, is created fresh
  (with an empty schema) when none is there, can be reopened, and holds one record of
  project attributes; opening and writing fail at once on a missing path, a refused
  permission or a corrupt store.

  \<^item> \<open>init_db\<close> opens the store at a path. A file there that is no store raises. With
    no file there, an empty store is created, unless the path is a directory, its
    directory is missing, or it may not be created.
  \<^item> \<open>db_insert_project\<close> is \<^verbatim>\<open>db.Project(...)\<close> inside a session: a row is added to the
    store, unless there is no store at the path or it may not be written.
  \<^item> \<open>db_get_project\<close> is \<^verbatim>\<open>db.Project.get().to_dict()\<close>: the single row, an
    AttributeError when there is none (\<^verbatim>\<open>get()\<close> gives \<open>None\<close>), a
    MultipleObjectsFoundError when there are several.
  \<^item> \<open>get_db\<close> with \<^verbatim>\<open>reconnect=True\<close> opens the store and makes it the connection.
\<close>

definition init_db :: "path \<Rightarrow> state \<Rightarrow> (error + unit) \<times> state" where
  "init_db dbpath s =
     (case files s dbpath of
        Some (Db rows) \<Rightarrow> (Inr (), s)
      | Some c \<Rightarrow> (Inl DatabaseError, s)
      | None \<Rightarrow>
          if dbpath \<in> dirs s \<or> dirname dbpath \<notin> dirs s \<or> dbpath \<in> denied s
          then (Inl DatabaseError, s)
          else (Inr (), s\<lparr>files := (files s)(dbpath \<mapsto> Db [])\<rparr>))"

definition db_insert_project :: "path \<Rightarrow> project \<Rightarrow> state \<Rightarrow> (error + unit) \<times> state" where
  "db_insert_project dbpath row s =
     (case files s dbpath of
        Some (Db rows) \<Rightarrow>
          if dbpath \<in> denied s then (Inl DatabaseError, s)
          else (Inr (), s\<lparr>files := (files s)(dbpath \<mapsto> Db (rows @ [row]))\<rparr>)
      | _ \<Rightarrow> (Inl DatabaseError, s))"

definition db_get_project :: "path \<Rightarrow> state \<Rightarrow> error + project" where
  "db_get_project dbpath s =
     (case files s dbpath of
        Some (Db []) \<Rightarrow> Inl AttributeError
      | Some (Db [row]) \<Rightarrow> Inr row
      | Some (Db (row # row' # rows)) \<Rightarrow> Inl MultipleObjectsFoundError
      | _ \<Rightarrow> Inl DatabaseError)"

definition get_db :: "path \<Rightarrow> state \<Rightarrow> (error + unit) \<times> state" where
  "get_db dbpath s =
     (case init_db dbpath s of
        (Inl e, s1) \<Rightarrow> (Inl e, s1)
      | (Inr u, s1) \<Rightarrow> (Inr (), s1\<lparr>connection := Some dbpath\<rparr>))"

subsection \<open>The functions of \<^verbatim>\<open>projects.py\<close>\<close>

text \<open>
  Every function takes the state and returns its result with the state it leaves
  behind; a result on the left is the exception raised, and the state next to it is
  what had been written before the exception.
\<close>

text \<open>\<^verbatim>\<open>_load_projects()\<close>: the key \<^verbatim>\<open>projects\<close>, an empty dictionary when it is missing.\<close>

definition load_projects :: "state \<Rightarrow> error + (string \<times> path) list" where
  "load_projects s =
     (case read_yaml (index_file s) s of
        Inl e \<Rightarrow> Inl e
      | Inr contents \<Rightarrow> Inr (case snd contents of None \<Rightarrow> [] | Some projects \<Rightarrow> projects))"

text \<open>\<^verbatim>\<open>_write_projects(projects)\<close>: the index is read, its key \<^verbatim>\<open>projects\<close> set, and written.\<close>

definition write_projects :: "(string \<times> path) list \<Rightarrow> state \<Rightarrow> (error + unit) \<times> state" where
  "write_projects projects s =
     (case read_yaml (index_file s) s of
        Inl e \<Rightarrow> (Inl e, s)
      | Inr contents \<Rightarrow> write_yaml (index_file s) (fst contents, Some projects) s)"

text \<open>\<^verbatim>\<open>get_active_project()\<close>: \<^verbatim>\<open>read_yaml(path).get('active_project', 'default')\<close>.\<close>

definition get_active_project :: "state \<Rightarrow> error + string" where
  "get_active_project s =
     (case read_yaml (index_file s) s of
        Inl e \<Rightarrow> Inl e
      | Inr contents \<Rightarrow> Inr (case fst contents of None \<Rightarrow> ''default'' | Some name \<Rightarrow> name))"

text \<open>\<^verbatim>\<open>get_projects()\<close> with its default arguments: the list of the names.\<close>

definition get_projects :: "state \<Rightarrow> error + string list" where
  "get_projects s =
     (case load_projects s of Inl e \<Rightarrow> Inl e | Inr projects \<Rightarrow> Inr (map fst projects))"

text \<open>
  \<^verbatim>\<open>_get_project_db(name)\<close>: ValueError for an unknown name; else the folder is resolved
  against the projects directory, created if missing, and the path of its store is
  returned.
\<close>

definition get_project_db :: "string \<Rightarrow> state \<Rightarrow> (error + path) \<times> state" where
  "get_project_db name s =
     (case load_projects s of
        Inl e \<Rightarrow> (Inl e, s)
      | Inr projects \<Rightarrow>
          if name \<notin> set (map fst projects)
          then (Inl (ValueError (''Project '' @ name @ '' not found'')), s)
          else (case map_of projects name of
                  None \<Rightarrow> (Inl (KeyError name), s)
                | Some folder \<Rightarrow>
                    let path = (if \<not> isabs folder then path_join (projects_dir s) folder
                                else folder)
                    in case mkdir_if_doesnt_exist path s of
                         (Inl e, s1) \<Rightarrow> (Inl e, s1)
                       | (Inr u, s1) \<Rightarrow> (Inr (path_join path PROJECT_DB_FILE), s1)))"

text \<open>\<^verbatim>\<open>active_db()\<close>.\<close>

definition active_db :: "state \<Rightarrow> (error + path) \<times> state" where
  "active_db s =
     (case get_active_project s of
        Inl e \<Rightarrow> (Inl e, s)
      | Inr name \<Rightarrow> get_project_db name s)"

text \<open>\<^verbatim>\<open>_load_project(name)\<close>: the store of the project is opened and its record read.\<close>

definition load_project :: "string \<Rightarrow> state \<Rightarrow> (error + project) \<times> state" where
  "load_project name s =
     (case get_project_db name s of
        (Inl e, s1) \<Rightarrow> (Inl e, s1)
      | (Inr dbpath, s1) \<Rightarrow>
          (case init_db dbpath s1 of
             (Inl e, s2) \<Rightarrow> (Inl e, s2)
           | (Inr u, s2) \<Rightarrow> (db_get_project dbpath s2, s2)))"

text \<open>
  \<^verbatim>\<open>set_active_project(name)\<close>. \<^verbatim>\<open>contents['projects']\<close> raises when the index has no
  such key; a name that is not a key of it is a ValueError. Otherwise the pointer is
  written and the connection moved to the store of the project.
\<close>

definition set_active_project :: "string \<Rightarrow> state \<Rightarrow> (error + string) \<times> state" where
  "set_active_project name s =
     (case read_yaml (index_file s) s of
        Inl e \<Rightarrow> (Inl e, s)
      | Inr contents \<Rightarrow>
          (case snd contents of
             None \<Rightarrow> (Inl (KeyError ''projects''), s)
           | Some projects \<Rightarrow>
               if name \<notin> set (map fst projects)
               then (Inl (ValueError (''Project '' @ name @ '' does not exist'')), s)
               else (case write_yaml (index_file s) (Some name, Some projects) s of
                       (Inl e, s1) \<Rightarrow> (Inl e, s1)
                     | (Inr u, s1) \<Rightarrow>
                         (case active_db s1 of
                            (Inl e, s2) \<Rightarrow> (Inl e, s2)
                          | (Inr dbpath, s2) \<Rightarrow>
                              (case get_db dbpath s2 of
                                 (Inl e, s3) \<Rightarrow> (Inl e, s3)
                               | (Inr u', s3) \<Rightarrow> (Inr name, s3))))))"

text \<open>
  \<^verbatim>\<open>new_project(name, display_name=None, description=None, metadata=None, folder=None,
  activate=True)\<close>: the directory is made, the store opened, the record inserted, and
  only then the name written to the index.
\<close>

definition new_project ::
  "string \<Rightarrow> string option \<Rightarrow> string option \<Rightarrow> (string \<times> string) list option \<Rightarrow> path option
   \<Rightarrow> bool \<Rightarrow> state \<Rightarrow> (error + project) \<times> state" where
  "new_project name0 display_name0 description0 metadata0 folder0 activate s =
     (let name = lower name0
      in case load_projects s of
           Inl e \<Rightarrow> (Inl e, s)
         | Inr projects \<Rightarrow>
             if name \<in> set (map fst projects)
             then (Inl (ValueError (''Project '' @ name @ '' exists, please use a unique name'')), s)
             else
               (let display_name = (case display_name0 of None \<Rightarrow> name | Some d \<Rightarrow> d);
                    description = (case description0 of None \<Rightarrow> [] | Some d \<Rightarrow> d);
                    folder = (case folder0 of None \<Rightarrow> name | Some f \<Rightarrow> f);
                    metadata = (case metadata0 of None \<Rightarrow> [] | Some m \<Rightarrow> m);
                    path = (if \<not> isabs folder then path_join (projects_dir s) folder else folder);
                    dbpath = path_join path PROJECT_DB_FILE
                in case mkdir_if_doesnt_exist path s of
                     (Inl e, s1) \<Rightarrow> (Inl e, s1)
                   | (Inr u1, s1) \<Rightarrow>
                 (case init_db dbpath s1 of
                     (Inl e, s2) \<Rightarrow> (Inl e, s2)
                   | (Inr u2, s2) \<Rightarrow>
                 (case db_insert_project dbpath
                         \<lparr>display_name = display_name, description = description,
                          metadata = metadata\<rparr> s2 of
                     (Inl e, s3) \<Rightarrow> (Inl e, s3)
                   | (Inr u3, s3) \<Rightarrow>
                 (case write_projects (AList.update name folder projects) s3 of
                     (Inl e, s4) \<Rightarrow> (Inl e, s4)
                   | (Inr u4, s4) \<Rightarrow>
                       if activate
                       then (case set_active_project name s4 of
                               (Inl e, s5) \<Rightarrow> (Inl e, s5)
                             | (Inr a, s5) \<Rightarrow> load_project name s5)
                       else load_project name s4)))))"

text \<open>
  \<^verbatim>\<open>remove_project(name)\<close>. The function returns the dictionary of the remaining
  projects, except after re-adding \<^verbatim>\<open>default\<close>, where it returns \<^verbatim>\<open>get_projects()\<close>, a
  list of names.
\<close>

datatype remaining = Dict "(string \<times> path) list" | Names "string list"

definition remove_project :: "string \<Rightarrow> state \<Rightarrow> (error + remaining) \<times> state" where
  "remove_project name s =
     (case load_projects s of
        Inl e \<Rightarrow> (Inl e, s)
      | Inr projects0 \<Rightarrow>
          if name \<notin> set (map fst projects0)
          then (Inr (Dict projects0), s)
          else
            (let projects = AList.delete name projects0
             in case write_projects projects s of
                  (Inl e, s1) \<Rightarrow> (Inl e, s1)
                | (Inr u, s1) \<Rightarrow>
                    (case get_active_project s1 of
                       Inl e \<Rightarrow> (Inl e, s1)
                     | Inr current \<Rightarrow>
                         if name = current
                         then (let active =
                                     (if ''default'' \<in> set (map fst projects) then Some ''default''
                                      else if length projects > 0 then Some (fst (hd projects))
                                      else None)
                               in case active of
                                    None \<Rightarrow>
                                      (case new_project ''default'' None None None None True s1 of
                                         (Inl e, s2) \<Rightarrow> (Inl e, s2)
                                       | (Inr p, s2) \<Rightarrow>
                                           (case get_projects s2 of
                                              Inl e \<Rightarrow> (Inl e, s2)
                                            | Inr names \<Rightarrow> (Inr (Names names), s2)))
                                  | Some a \<Rightarrow>
                                      (case set_active_project a s1 of
                                         (Inl e, s2) \<Rightarrow> (Inl e, s2)
                                       | (Inr a', s2) \<Rightarrow> (Inr (Dict projects), s2)))
                         else (Inr (Dict projects), s1))))"

text \<open>\<^verbatim>\<open>delete_project(name)\<close>: the folder is removed from the disk, then the project from the index.\<close>

definition delete_project :: "string \<Rightarrow> state \<Rightarrow> (error + remaining) \<times> state" where
  "delete_project name s =
     (case load_projects s of
        Inl e \<Rightarrow> (Inl e, s)
      | Inr projects \<Rightarrow>
          if name \<notin> set (map fst projects)
          then (Inr (Dict projects), s)
          else (case map_of projects name of
                  None \<Rightarrow> (Inl (KeyError name), s)
                | Some folder \<Rightarrow>
                    let path = (if \<not> isabs folder then path_join (projects_dir s) folder
                                else folder)
                    in if path_exists path s
                       then (case rmtree path s of
                               (Inl e, s1) \<Rightarrow> (Inl e, s1)
                             | (Inr u, s1) \<Rightarrow> remove_project name s1)
                       else remove_project name s))"

text \<open>
  \<^verbatim>\<open>add_project(name, path, activate=True)\<close>. Whatever is raised between the update of the
  dictionary and the loading of the project is caught: the name is popped, the index
  written again, and a ValueError raised.
\<close>

definition add_project :: "string \<Rightarrow> path \<Rightarrow> bool \<Rightarrow> state \<Rightarrow> (error + project) \<times> state" where
  "add_project name0 path activate s =
     (let name = lower name0
      in case load_projects s of
           Inl e \<Rightarrow> (Inl e, s)
         | Inr projects0 \<Rightarrow>
             if name \<in> set (map fst projects0)
             then (Inl (ValueError (''Project '' @ name @ '' exists, please use a unique name'')), s)
             else if \<not> path_exists path s
             then (Inl (ValueError (''Path does not exist: '' @ path)), s)
             else
               (let folder = path;
                    projects = AList.update name folder projects0
                in case (case write_projects projects s of
                           (Inl e, s1) \<Rightarrow> (Inl e, s1)
                         | (Inr u, s1) \<Rightarrow> load_project name s1) of
                     (Inl e, s2) \<Rightarrow>
                       if name \<notin> set (map fst projects) then (Inl (KeyError name), s2)
                       else (case write_projects (AList.delete name projects) s2 of
                               (Inl e', s3) \<Rightarrow> (Inl e', s3)
                             | (Inr u, s3) \<Rightarrow>
                                 (Inl (ValueError (''Invalid Project Folder: '' @ path)), s3))
                   | (Inr project, s2) \<Rightarrow>
                       if activate
                       then (case set_active_project name s2 of
                               (Inl e, s3) \<Rightarrow> (Inl e, s3)
                             | (Inr a, s3) \<Rightarrow> (Inr project, s3))
                       else (Inr project, s2)))"

subsection \<open>Sequences of calls\<close>

text \<open>
  A call of one of the five functions that change the registry. \<open>exec\<close> makes the call
  and gives whether it returned (\<open>False\<close>: it raised) with the state it left; a call
  that raises leaves the state it had reached, and the caller goes on with the next
  call. \<open>run\<close> is the state after a sequence of calls, and \<open>deletions_return\<close> says that
  no \<^verbatim>\<open>delete_project\<close> and no \<^verbatim>\<open>remove_project\<close> call of the sequence raised.
\<close>

datatype call =
    NewProject string "string option" "string option" "(string \<times> string) list option"
      "path option" bool
  | AddProject string path bool
  | DeleteProject string
  | RemoveProject string
  | SetActiveProject string

definition returned :: "(error + 'a) \<times> state \<Rightarrow> bool \<times> state" where
  "returned out = (case out of (Inl e, s') \<Rightarrow> (False, s') | (Inr v, s') \<Rightarrow> (True, s'))"

fun exec :: "call \<Rightarrow> state \<Rightarrow> bool \<times> state" where
  "exec (NewProject name dn de md fo act) s = returned (new_project name dn de md fo act s)"
| "exec (AddProject name path act) s = returned (add_project name path act s)"
| "exec (DeleteProject name) s = returned (delete_project name s)"
| "exec (RemoveProject name) s = returned (remove_project name s)"
| "exec (SetActiveProject name) s = returned (set_active_project name s)"

fun run :: "call list \<Rightarrow> state \<Rightarrow> state" where
  "run [] s = s"
| "run (c # cs) s = run cs (snd (exec c s))"





text \<open>
  For the statements below: the path that \<^verbatim>\<open>new_project\<close>, \<^verbatim>\<open>delete_project\<close> and
  \<^verbatim>\<open>_get_project_db\<close> make of a folder (joined to the projects directory unless
  absolute) and the store of a folder; the folder that \<^verbatim>\<open>new_project\<close> gives a project
  (\<^verbatim>\<open>folder\<close>, or the lower-cased name when none is passed) and the record that it
  inserts; the record that \<^verbatim>\<open>new_project('default')\<close> inserts.
\<close>

definition resolve :: "state \<Rightarrow> path \<Rightarrow> path" where
  "resolve s folder = (if \<not> isabs folder then path_join (projects_dir s) folder else folder)"

definition store_of :: "state \<Rightarrow> path \<Rightarrow> path" where
  "store_of s folder = path_join (resolve s folder) PROJECT_DB_FILE"

definition new_folder :: "string \<Rightarrow> path option \<Rightarrow> path" where
  "new_folder n fo = (case fo of None \<Rightarrow> lower n | Some f \<Rightarrow> f)"

definition new_record ::
  "string \<Rightarrow> string option \<Rightarrow> string option \<Rightarrow> (string \<times> string) list option \<Rightarrow> project" where
  "new_record n dn de md =
     \<lparr>display_name = (case dn of None \<Rightarrow> lower n | Some d \<Rightarrow> d),
      description = (case de of None \<Rightarrow> [] | Some d \<Rightarrow> d),
      metadata = (case md of None \<Rightarrow> [] | Some m \<Rightarrow> m)\<rparr>"


text \<open>
  An example of a state, for concrete instances: the projects directory
  \<^verbatim>\<open>/quest/projects\<close> holds the index file, with the projects \<open>names\<close> and the active
  pointer \<open>active\<close>, and for each project the folder of its name with a store of one
  record. Nothing is denied.
\<close>

definition example_state :: "string \<Rightarrow> string list \<Rightarrow> state" where
  "example_state active names =
     \<lparr>projects_dir = ''/quest/projects'',
      dirs = set (''/quest'' # ''/quest/projects'' # map (\<lambda>n. ''/quest/projects/'' @ n) names),
      files = map_of
        ((''/quest/projects/project_index.yml'', Yaml (Some active) (Some (map (\<lambda>n. (n, n)) names)))
         # map (\<lambda>n. (''/quest/projects/'' @ n @ ''/metadata.db'',
                     Db [\<lparr>display_name = n, description = [], metadata = []\<rparr>])) names),
      denied = {},
      connection = None\<rparr>"

subsection \<open>Notions for the proofs\<close>

text \<open>
  \<open>index s\<close> is the content of the index file. \<open>files_kept s s'\<close>: every file of \<open>s\<close> is
  in \<open>s'\<close> with the content it had; \<open>stores_kept s s'\<close>: the same for every file but the
  index file; \<open>index_kept s s'\<close>: the same for an index file that holds an index. All
  three say that the projects directory and the denied paths are the same.
\<close>

definition index :: "state \<Rightarrow> content option" where
  "index s = files s (index_file s)"

definition projects_of :: "(string \<times> path) list option \<Rightarrow> (string \<times> path) list" where
  "projects_of ps = (case ps of None \<Rightarrow> [] | Some projects \<Rightarrow> projects)"

definition active_of :: "string option \<Rightarrow> string" where
  "active_of a = (case a of None \<Rightarrow> ''default'' | Some name \<Rightarrow> name)"

definition same_env :: "state \<Rightarrow> state \<Rightarrow> bool" where
  "same_env s s' = (projects_dir s' = projects_dir s \<and> denied s' = denied s)"

definition files_kept :: "state \<Rightarrow> state \<Rightarrow> bool" where
  "files_kept s s' = (same_env s s' \<and> (\<forall>p c. files s p = Some c \<longrightarrow> files s' p = Some c))"

definition stores_kept :: "state \<Rightarrow> state \<Rightarrow> bool" where
  "stores_kept s s' =
     (same_env s s' \<and> (\<forall>p c. p \<noteq> index_file s \<and> files s p = Some c \<longrightarrow> files s' p = Some c))"

definition index_kept :: "state \<Rightarrow> state \<Rightarrow> bool" where
  "index_kept s s' =
     (same_env s s' \<and> (\<forall>a ps. index s = Some (Yaml a ps) \<longrightarrow> index s' = Some (Yaml a ps)))"

section \<open>Facts about splitting\<close>

lemma str_split_Nil: "m \<noteq> Some 0 \<Longrightarrow> str_split sep m [] = [[]]"
  by (simp add: str_split.simps)

lemma str_split_zero: "str_split sep (Some 0) s = [s]"
  by (simp add: str_split.simps)

lemma str_split_Cons:
  "m \<noteq> Some 0 \<Longrightarrow>
   str_split sep m (c # cs) =
     (if sep \<noteq> [] \<and> prefix sep (c # cs)
      then [] # str_split sep (map_option (\<lambda>n. n - 1) m) (drop (length sep) (c # cs))
      else (case str_split sep m cs of w # ws \<Rightarrow> (c # w) # ws | [] \<Rightarrow> [[c]]))"
  by (subst str_split.simps) simp

lemma str_split_not_Nil: "str_split sep m s \<noteq> []"
proof (induction sep m s rule: str_split.induct)
  case (1 sep maxsplit s)
  show ?case
  proof (cases "maxsplit = Some 0")
    case True
    then show ?thesis by (simp add: str_split_zero)
  next
    case False
    then show ?thesis
      by (cases s) (auto simp: str_split_Nil str_split_Cons split: list.splits)
  qed
qed

lemma str_split_no_sep:
  "\<not> sublist sep s \<Longrightarrow> str_split sep m s = [s]"
proof (induction s)
  case Nil
  then show ?case by (cases "m = Some 0") (simp_all add: str_split_zero str_split_Nil)
next
  case (Cons c cs)
  have np: "\<not> prefix sep (c # cs)"
    using Cons.prems by auto
  have "\<not> sublist sep cs"
    using Cons.prems by (auto simp: sublist_Cons_right)
  then have ih: "str_split sep m cs = [cs]" by (rule Cons.IH)
  show ?case
    by (cases "m = Some 0") (simp_all add: str_split_zero str_split_Cons np ih)
qed

lemma str_split_char:
  "c \<notin> set a \<Longrightarrow> m \<noteq> Some 0 \<Longrightarrow>
   str_split [c] m (a @ c # b) = a # str_split [c] (map_option (\<lambda>n. n - 1) m) b"
  by (induction a) (simp_all add: str_split_Cons)

lemma not_sublist_char: "c \<notin> set s \<Longrightarrow> \<not> sublist [c] s"
  by (auto simp: sublist_def)

section \<open>Parsing and constructing service URIs\<close>

lemma pad2_nonempty: "xs \<noteq> [] \<Longrightarrow> \<exists>b. pad2 xs = Inr (Some (hd xs), b)"
  by (cases xs; cases "tl xs") (auto simp: pad2_def)

lemma pad2_one: "pad2 [a] = Inr (Some a, None)"
  by (simp add: pad2_def)

lemma pad2_two: "pad2 (a # b # xs) = Inr (Some a, Some b)"
  by (simp add: pad2_def)

lemma str_split_has_char:
  assumes c: "c \<in> set s" and m: "m \<noteq> Some 0"
  shows "str_split [c] m s =
     takeWhile (\<lambda>x. x \<noteq> c) s #
       str_split [c] (map_option (\<lambda>n. n - 1) m) (tl (dropWhile (\<lambda>x. x \<noteq> c) s))"
proof -
  obtain a b where s: "s = a @ c # b" and a: "c \<notin> set a"
    using c by (meson split_list_first)
  have "takeWhile (\<lambda>x. x \<noteq> c) (a @ c # b) = a" using a by (induction a) auto
  moreover have "dropWhile (\<lambda>x. x \<noteq> c) (a @ c # b) = c # b" using a by (induction a) auto
  ultimately show ?thesis using str_split_char[OF a m, of b] s by simp
qed

lemma takeWhile_no_char: "c \<notin> set s \<Longrightarrow> takeWhile (\<lambda>x. x \<noteq> c) s = s"
  by (induction s) auto




lemma str_split_skip:
  "sep \<noteq> [] \<Longrightarrow> hd sep \<notin> set a \<Longrightarrow> m \<noteq> Some 0 \<Longrightarrow>
   str_split sep m (a @ b) = (a @ hd (str_split sep m b)) # tl (str_split sep m b)"
proof (induction a)
  case Nil
  then show ?case using str_split_not_Nil[of sep m b] by simp
next
  case (Cons x a)
  have "\<not> prefix sep (x # a @ b)"
    using Cons.prems by (cases sep) auto
  then show ?case
    using Cons by (simp add: str_split_Cons)
qed

text \<open>
  Claim C9, as amended. If the provider contains neither \<^verbatim>\<open>':'\<close> nor \<^verbatim>\<open>'/'\<close>, the service
  contains neither \<^verbatim>\<open>':'\<close> nor \<^verbatim>\<open>'/'\<close>, and the feature is \<open>None\<close> or a string that does
  not contain \<^verbatim>\<open>'://'\<close> and, when the service is empty, does not begin with \<^verbatim>\<open>'/'\<close>, then
  parsing the constructed URI gives back (provider, service, feature).
\<close>

theorem construct_parse_roundtrip:
  assumes p: "CHR '':'' \<notin> set provider" "CHR ''/'' \<notin> set provider"
    and s: "CHR '':'' \<notin> set service" "CHR ''/'' \<notin> set service"
    and f: "case feature of None \<Rightarrow> True
            | Some x \<Rightarrow> \<not> sublist ''://'' x \<and> \<not> (service = [] \<and> prefix ''/'' x)"
  shows "parse_service_uri (construct_service_uri provider service feature)
         = Inr (Some provider, Some service, feature)"
proof -
  define tail where "tail = (case feature of None \<Rightarrow> [] | Some x \<Rightarrow> ''/'' @ x)"
  define r where "r = provider @ '':'' @ service @ tail"
  have uri: "construct_service_uri provider service feature = ''svc://'' @ r"
    by (simp add: construct_service_uri_def r_def tail_def split: option.splits)
  have tail1: "str_split ''://'' None tail = [tail]"
  proof (cases feature)
    case None
    then show ?thesis by (simp add: tail_def str_split_Nil)
  next
    case (Some x)
    then have "str_split ''://'' None x = [x]"
      using f by (simp add: str_split_no_sep)
    then show ?thesis using Some by (simp add: tail_def str_split_Cons)
  qed
  have st: "str_split ''://'' None (service @ tail) = [service @ tail]"
    using str_split_skip[of "''://''" service None tail] s tail1 by simp
  have np: "\<not> prefix ''://'' ('':'' @ service @ tail)"
  proof (cases service)
    case Nil
    then show ?thesis using f by (cases feature) (auto simp: tail_def)
  next
    case (Cons c cs)
    then show ?thesis using s by auto
  qed
  have "str_split ''://'' None ('':'' @ service @ tail) = ['':'' @ service @ tail]"
    using np st by (simp add: str_split_Cons)
  then have "str_split ''://'' None r = [r]"
    using str_split_skip[of "''://''" provider None "'':'' @ service @ tail"] p
    by (simp add: r_def)
  then have 1: "last_item (str_split ''://'' None (''svc://'' @ r)) = Inr r"
    by (simp add: last_item_def str_split_Cons)
  have svc_nosl: "CHR ''/'' \<notin> set (provider @ '':'' @ service)"
    using p s by simp
  have 2: "pad2 (str_split ''/'' (Some 1) r) = Inr (Some (provider @ '':'' @ service), feature)"
  proof (cases feature)
    case None
    then have "r = provider @ '':'' @ service" by (simp add: r_def tail_def)
    then show ?thesis using svc_nosl None
      by (simp add: str_split_no_sep not_sublist_char pad2_one)
  next
    case (Some x)
    then have "r = (provider @ '':'' @ service) @ CHR ''/'' # x" by (simp add: r_def tail_def)
    then show ?thesis using str_split_char[OF svc_nosl, of "Some 1" x] Some
      by (simp add: str_split_zero pad2_two)
  qed
  have "str_split '':'' None (provider @ CHR '':'' # service) = [provider, service]"
    using str_split_char[OF p(1), of None service] s
    by (simp add: str_split_no_sep not_sublist_char)
  then have 3: "pad2 (str_split '':'' None (provider @ '':'' @ service)) = Inr (Some provider, Some service)"
    by (simp add: pad2_two)
  show ?thesis using 1 2 3 by (simp add: uri parse_service_uri_def)
qed

theorem construct_parse_roundtrip_witness:
  "parse_service_uri (construct_service_uri ''usgs-nwis'' ''iv'' (Some ''01529500''))
     = Inr (Some ''usgs-nwis'', Some ''iv'', Some ''01529500'')
   \<and> parse_service_uri (construct_service_uri ''usgs-ned'' ''1-arc-second'' None)
     = Inr (Some ''usgs-ned'', Some ''1-arc-second'', None)"
  using construct_parse_roundtrip[of "''usgs-nwis''" "''iv''" "Some ''01529500''"]
    construct_parse_roundtrip[of "''usgs-ned''" "''1-arc-second''" None]
  by (simp add: sublist_Cons_right)

text \<open>
  The claim as first stated lets the service contain \<^verbatim>\<open>':'\<close> and puts no condition on the
  feature. Each of the three inputs below meets its conditions, and the parse of the
  constructed URI is not the triple that went in: a \<^verbatim>\<open>':'\<close> in the service cuts it short,
  a \<^verbatim>\<open>'://'\<close> in the feature makes \<^verbatim>\<open>split('://')[-1]\<close> keep only what follows it, and an
  empty service followed by a feature that begins with \<^verbatim>\<open>'/'\<close> forms a \<^verbatim>\<open>'://'\<close> of its own.
\<close>

theorem construct_parse_roundtrip_counterexample:
  "CHR '':'' \<notin> set ''p'' \<and> CHR ''/'' \<notin> set ''p'' \<and> CHR ''/'' \<notin> set ''a:b'' \<and> CHR ''/'' \<notin> set ''s''
   \<and> CHR ''/'' \<notin> set ''''
   \<and> parse_service_uri (construct_service_uri ''p'' ''a:b'' None) = Inr (Some ''p'', Some ''a'', None)
   \<and> parse_service_uri (construct_service_uri ''p'' ''a:b'' None) \<noteq> Inr (Some ''p'', Some ''a:b'', None)
   \<and> parse_service_uri (construct_service_uri ''p'' ''s'' (Some ''x://y'')) = Inr (Some ''y'', None, None)
   \<and> parse_service_uri (construct_service_uri ''p'' ''s'' (Some ''x://y''))
       \<noteq> Inr (Some ''p'', Some ''s'', Some ''x://y'')
   \<and> parse_service_uri (construct_service_uri ''p'' '''' (Some ''/x'')) = Inr (Some ''x'', None, None)
   \<and> parse_service_uri (construct_service_uri ''p'' '''' (Some ''/x''))
       \<noteq> Inr (Some ''p'', Some '''', Some ''/x'')"
  by (simp add: construct_service_uri_def parse_service_uri_def last_item_def pad2_def
      str_split_Cons str_split_Nil str_split_zero)

section \<open>More on service URIs\<close>

lemma str_split_two:
  "sep \<noteq> [] \<Longrightarrow> sublist sep s \<Longrightarrow> 2 \<le> length (str_split sep None s)"
proof (induction s)
  case Nil
  then show ?case by simp
next
  case (Cons c cs)
  show ?case
  proof (cases "prefix sep (c # cs)")
    case True
    then show ?thesis
      using Cons.prems(1) str_split_not_Nil[of sep None "drop (length sep) (c # cs)"]
      by (cases "str_split sep None (drop (length sep) (c # cs))") (simp_all add: str_split_Cons)
  next
    case False
    then have "sublist sep cs" using Cons.prems(2) by (simp add: sublist_Cons_right)
    then have "2 \<le> length (str_split sep None cs)" using Cons by simp
    then show ?thesis using False
      by (cases "str_split sep None cs") (simp_all add: str_split_Cons)
  qed
qed

lemma last_split_suffix:
  "sep \<noteq> [] \<Longrightarrow>
   \<exists>pre. s = pre @ last (str_split sep None s) \<and> (sublist sep s \<longrightarrow> length sep \<le> length pre)"
proof (induction s rule: length_induct)
  case (1 s)
  show ?case
  proof (cases s)
    case Nil
    then show ?thesis using 1(2) by (simp add: str_split_Nil)
  next
    case (Cons c cs)
    show ?thesis
    proof (cases "prefix sep (c # cs)")
      case True
      let ?d = "drop (length sep) (c # cs)"
      have "length ?d < length s" using 1(2) Cons by simp
      then obtain pre where pre: "?d = pre @ last (str_split sep None ?d)"
        using 1 by blast
      have s: "s = sep @ ?d" using True Cons by (metis append_eq_conv_conj prefix_def)
      have "last (str_split sep None s) = last (str_split sep None ?d)"
        using True 1(2) Cons str_split_not_Nil[of sep None ?d] by (simp add: str_split_Cons)
      then have "s = (sep @ pre) @ last (str_split sep None s)" using s pre by simp
      then show ?thesis by (metis length_append le_add1)
    next
      case False
      have "length cs < length s" using Cons by simp
      then obtain pre where pre: "cs = pre @ last (str_split sep None cs)"
        and bound: "sublist sep cs \<longrightarrow> length sep \<le> length pre"
        using 1 by blast
      obtain w ws where w: "str_split sep None cs = w # ws"
        using str_split_not_Nil[of sep None cs] by (cases "str_split sep None cs") auto
      have sp: "str_split sep None s = (c # w) # ws"
        using False Cons w by (simp add: str_split_Cons)
      have sub: "sublist sep s \<longleftrightarrow> sublist sep cs"
        using False Cons by (simp add: sublist_Cons_right)
      show ?thesis
      proof (cases ws)
        case Nil
        have ns: "\<not> sublist sep cs"
          using str_split_two[OF 1(2), of cs] w Nil by auto
        then have "w = cs" using str_split_no_sep[OF ns, of None] w by simp
        then have "s = [] @ last (str_split sep None s)"
          using sp Nil Cons by simp
        then show ?thesis using sub ns by blast
      next
        case (Cons a as)
        then have "last (str_split sep None s) = last (str_split sep None cs)"
          using sp w by simp
        then have "s = (c # pre) @ last (str_split sep None s)"
          using pre \<open>s = c # cs\<close> by simp
        moreover have "sublist sep s \<longrightarrow> length sep \<le> length (c # pre)"
          using sub bound by auto
        ultimately show ?thesis by blast
      qed
    qed
  qed
qed

lemma takeWhile_dropWhile_char:
  "c \<in> set s \<Longrightarrow> s = takeWhile (\<lambda>x. x \<noteq> c) s @ c # tl (dropWhile (\<lambda>x. x \<noteq> c) s)"
  by (induction s) auto

lemma parse_service_uri_unfold:
  fixes uri
  defines "t \<equiv> last (str_split ''://'' None uri)"
  defines "svc \<equiv> takeWhile (\<lambda>x. x \<noteq> CHR ''/'') t"
  shows "parse_service_uri uri =
     Inr (Some (takeWhile (\<lambda>x. x \<noteq> CHR '':'') svc),
          (if CHR '':'' \<in> set svc
           then Some (takeWhile (\<lambda>x. x \<noteq> CHR '':'') (tl (dropWhile (\<lambda>x. x \<noteq> CHR '':'') svc)))
           else None),
          (if CHR ''/'' \<in> set t then Some (tl (dropWhile (\<lambda>x. x \<noteq> CHR ''/'') t)) else None))"
proof -
  have 1: "last_item (str_split ''://'' None uri) = Inr t"
    by (simp add: last_item_def str_split_not_Nil t_def)
  have 2: "pad2 (str_split ''/'' (Some 1) t) =
      Inr (Some svc, if CHR ''/'' \<in> set t then Some (tl (dropWhile (\<lambda>x. x \<noteq> CHR ''/'') t)) else None)"
    by (simp add: str_split_has_char str_split_zero pad2_two str_split_no_sep not_sublist_char
        pad2_one takeWhile_no_char svc_def)
  have 3: "pad2 (str_split '':'' None svc) =
      Inr (Some (takeWhile (\<lambda>x. x \<noteq> CHR '':'') svc),
           if CHR '':'' \<in> set svc
           then Some (takeWhile (\<lambda>x. x \<noteq> CHR '':'') (tl (dropWhile (\<lambda>x. x \<noteq> CHR '':'') svc)))
           else None)"
  proof (cases "CHR '':'' \<in> set svc")
    case False
    then show ?thesis
      by (simp add: str_split_no_sep not_sublist_char pad2_one takeWhile_no_char)
  next
    case True
    let ?rest = "tl (dropWhile (\<lambda>x. x \<noteq> CHR '':'') svc)"
    have "hd (str_split '':'' None ?rest) = takeWhile (\<lambda>x. x \<noteq> CHR '':'') ?rest"
    proof (cases "CHR '':'' \<in> set ?rest")
      case True
      then show ?thesis by (simp add: str_split_has_char)
    next
      case False
      then show ?thesis by (simp add: str_split_no_sep not_sublist_char takeWhile_no_char)
    qed
    moreover obtain w ws where "str_split '':'' None ?rest = w # ws"
      using str_split_not_Nil[of "'':''" None ?rest] by (cases "str_split '':'' None ?rest") auto
    ultimately show ?thesis using True by (simp add: str_split_has_char pad2_two)
  qed
  show ?thesis using 1 2 3 by (simp add: parse_service_uri_def)
qed

text \<open>
  The parse written out, for every string: with \<open>t\<close> the text after the last \<^verbatim>\<open>'://'\<close> and
  \<open>svc\<close> the part of \<open>t\<close> before its first \<^verbatim>\<open>'/'\<close>, the provider is the part of \<open>svc\<close>
  before its first \<^verbatim>\<open>':'\<close>, the service is what lies between the first and the second
  \<^verbatim>\<open>':'\<close> of \<open>svc\<close> (\<open>None\<close> without a \<^verbatim>\<open>':'\<close>), and the feature is all of \<open>t\<close> after its
  first \<^verbatim>\<open>'/'\<close> (\<open>None\<close> without a \<^verbatim>\<open>'/'\<close>).
\<close>

theorem parse_service_uri_formula:
  "parse_service_uri uri =
     (let t = last (str_split ''://'' None uri);
          svc = takeWhile (\<lambda>x. x \<noteq> CHR ''/'') t
      in Inr (Some (takeWhile (\<lambda>x. x \<noteq> CHR '':'') svc),
              (if CHR '':'' \<in> set svc
               then Some (takeWhile (\<lambda>x. x \<noteq> CHR '':'') (tl (dropWhile (\<lambda>x. x \<noteq> CHR '':'') svc)))
               else None),
              (if CHR ''/'' \<in> set t then Some (tl (dropWhile (\<lambda>x. x \<noteq> CHR ''/'') t)) else None)))"
  using parse_service_uri_unfold[of uri] by (simp add: Let_def)

lemma length_takeWhile_tl_dropWhile:
  "c \<in> set s \<Longrightarrow>
   length s = length (takeWhile (\<lambda>x. x \<noteq> c) s) + 1 + length (tl (dropWhile (\<lambda>x. x \<noteq> c) s))"
  using arg_cong[OF takeWhile_dropWhile_char[of c s], of length] by simp

lemma no_char_takeWhile: "c \<notin> set (takeWhile (\<lambda>x. x \<noteq> c) s)"
  by (induction s) auto

lemma takeWhile_self_no_char: "takeWhile (\<lambda>x. x \<noteq> c) s = s \<Longrightarrow> c \<notin> set s"
  using no_char_takeWhile[of c s] by auto

text \<open>
  The converse of claim C9 as amended: whenever parsing the constructed URI gives back
  (provider, service, feature), the provider and the service contain neither \<^verbatim>\<open>':'\<close> nor
  \<^verbatim>\<open>'/'\<close>, and the feature, when given, does not contain \<^verbatim>\<open>'://'\<close> and does not begin
  with \<^verbatim>\<open>'/'\<close> after an empty service. The conditions of the amended claim are the
  weakest possible.
\<close>

theorem roundtrip_conditions_necessary:
  assumes rt: "parse_service_uri (construct_service_uri provider service feature)
               = Inr (Some provider, Some service, feature)"
  shows "CHR '':'' \<notin> set provider \<and> CHR ''/'' \<notin> set provider
       \<and> CHR '':'' \<notin> set service \<and> CHR ''/'' \<notin> set service
       \<and> (case feature of None \<Rightarrow> True
          | Some x \<Rightarrow> \<not> sublist ''://'' x \<and> \<not> (service = [] \<and> prefix ''/'' x))"
proof -
  define tail where "tail = (case feature of None \<Rightarrow> [] | Some x \<Rightarrow> ''/'' @ x)"
  define q where "q = provider @ '':'' @ service"
  define r where "r = q @ tail"
  define t where "t = last (str_split ''://'' None r)"
  define svc where "svc = takeWhile (\<lambda>x. x \<noteq> CHR ''/'') t"
  have uri: "construct_service_uri provider service feature = ''svc://'' @ r"
    by (simp add: construct_service_uri_def r_def q_def tail_def split: option.splits)
  have t': "last (str_split ''://'' None (''svc://'' @ r)) = t"
    using str_split_not_Nil[of "''://''" None r] by (simp add: str_split_Cons t_def)
  note f = parse_service_uri_unfold[of "''svc://'' @ r", unfolded t', folded svc_def]
  from rt have a: "takeWhile (\<lambda>x. x \<noteq> CHR '':'') svc = provider"
    and b: "(if CHR '':'' \<in> set svc
             then Some (takeWhile (\<lambda>x. x \<noteq> CHR '':'') (tl (dropWhile (\<lambda>x. x \<noteq> CHR '':'') svc)))
             else None) = Some service"
    and c: "(if CHR ''/'' \<in> set t then Some (tl (dropWhile (\<lambda>x. x \<noteq> CHR ''/'') t)) else None) = feature"
    unfolding uri f by simp_all
  from b have colon: "CHR '':'' \<in> set svc"
    and b': "takeWhile (\<lambda>x. x \<noteq> CHR '':'') (tl (dropWhile (\<lambda>x. x \<noteq> CHR '':'') svc)) = service"
    by (simp_all split: if_splits)
  have lsvc: "length provider + 1 + length service \<le> length svc"
  proof -
    have "length (takeWhile (\<lambda>x. x \<noteq> CHR '':'') (tl (dropWhile (\<lambda>x. x \<noteq> CHR '':'') svc)))
          \<le> length (tl (dropWhile (\<lambda>x. x \<noteq> CHR '':'') svc))"
      by (rule length_takeWhile_le)
    then have "length service \<le> length (tl (dropWhile (\<lambda>x. x \<noteq> CHR '':'') svc))"
      by (simp only: b')
    then show ?thesis using length_takeWhile_tl_dropWhile[OF colon] a by simp
  qed
  have lt: "length svc + length tail = length t"
  proof (cases feature)
    case None
    then have "CHR ''/'' \<notin> set t" using c by (simp split: if_splits)
    then show ?thesis using None by (simp add: svc_def tail_def takeWhile_no_char)
  next
    case (Some x)
    then have sl: "CHR ''/'' \<in> set t" and x: "tl (dropWhile (\<lambda>x. x \<noteq> CHR ''/'') t) = x"
      using c by (simp_all split: if_splits)
    show ?thesis using length_takeWhile_tl_dropWhile[OF sl] x Some by (simp add: svc_def tail_def)
  qed
  obtain pre where pre: "r = pre @ t" and bound: "sublist ''://'' r \<longrightarrow> 3 \<le> length pre"
    using last_split_suffix[of "''://''" r] unfolding t_def by auto
  have "length r = length provider + 1 + length service + length tail"
    by (simp add: r_def q_def)
  then have "length r \<le> length t" using lsvc lt by simp
  then have "pre = []" using pre by simp
  then have tr: "t = r" and nosub: "\<not> sublist ''://'' r" using pre bound by auto
  have svcq: "svc = q \<and> CHR ''/'' \<notin> set q"
  proof (cases feature)
    case None
    then have "CHR ''/'' \<notin> set t" using c by (simp split: if_splits)
    then show ?thesis using None tr by (simp add: svc_def r_def tail_def takeWhile_no_char)
  next
    case (Some x)
    then have sl: "CHR ''/'' \<in> set t" and x: "tl (dropWhile (\<lambda>x. x \<noteq> CHR ''/'') t) = x"
      using c by (simp_all split: if_splits)
    have "t = svc @ CHR ''/'' # x"
      using takeWhile_dropWhile_char[OF sl] x by (simp add: svc_def)
    moreover have "t = q @ CHR ''/'' # x" using tr Some by (simp add: r_def tail_def)
    ultimately have "svc = q" by simp
    moreover have "CHR ''/'' \<notin> set svc"
      unfolding svc_def by (rule no_char_takeWhile)
    ultimately show ?thesis by simp
  qed
  then have svc: "svc = q" and noslash: "CHR ''/'' \<notin> set q" by simp_all
  have pc: "CHR '':'' \<notin> set provider"
    using no_char_takeWhile[of "CHR '':''" svc] a by simp
  have "svc = provider @ CHR '':'' # tl (dropWhile (\<lambda>x. x \<noteq> CHR '':'') svc)"
    using takeWhile_dropWhile_char[OF colon] a by simp
  then have "tl (dropWhile (\<lambda>x. x \<noteq> CHR '':'') svc) = service"
    using svc by (simp add: q_def)
  then have "takeWhile (\<lambda>x. x \<noteq> CHR '':'') service = service" using b' by simp
  then have sc: "CHR '':'' \<notin> set service"
    by (rule takeWhile_self_no_char)
  have feat: "case feature of None \<Rightarrow> True
          | Some x \<Rightarrow> \<not> sublist ''://'' x \<and> \<not> (service = [] \<and> prefix ''/'' x)"
  proof (cases feature)
    case None
    then show ?thesis by simp
  next
    case (Some x)
    have r: "r = (provider @ '':'' @ service @ ''/'') @ x"
      using Some by (simp add: r_def q_def tail_def)
    have 1: "\<not> sublist ''://'' x"
    proof
      assume "sublist ''://'' x"
      then obtain ps ss where "x = ps @ ''://'' @ ss" unfolding sublist_def by blast
      then have "r = ((provider @ '':'' @ service @ ''/'') @ ps) @ ''://'' @ ss"
        using r by simp
      then have "sublist ''://'' r" unfolding sublist_def by blast
      then show False using nosub by simp
    qed
    have 2: "\<not> (service = [] \<and> prefix ''/'' x)"
    proof
      assume h: "service = [] \<and> prefix ''/'' x"
      then obtain x' where "x = ''/'' @ x'" by (auto simp: prefix_def)
      then have "r = provider @ ''://'' @ x'" using h r by simp
      then have "sublist ''://'' r" unfolding sublist_def by blast
      then show False using nosub by simp
    qed
    show ?thesis using Some 1 2 by simp
  qed
  show ?thesis using pc sc noslash feat by (simp add: q_def)
qed

theorem roundtrip_conditions_necessary_witness:
  "CHR '':'' \<notin> set ''usgs-nwis'' \<and> CHR ''/'' \<notin> set ''usgs-nwis''
   \<and> CHR '':'' \<notin> set ''iv'' \<and> CHR ''/'' \<notin> set ''iv''
   \<and> \<not> sublist ''://'' ''01529500''"
proof -
  have "parse_service_uri (construct_service_uri ''usgs-nwis'' ''iv'' (Some ''01529500''))
          = Inr (Some ''usgs-nwis'', Some ''iv'', Some ''01529500'')"
    by (simp add: construct_service_uri_def parse_service_uri_def last_item_def pad2_def
        str_split_Cons str_split_Nil str_split_zero)
  from roundtrip_conditions_necessary[OF this] show ?thesis by simp
qed

section \<open>Facts about identifiers and classification\<close>

lemma hex_lower_cases:
  "c \<in> set ''0123456789abcdef'' \<Longrightarrow>
     \<exists>d. hex_val c = Some d \<and> 0 \<le> d \<and> d < 16 \<and> hex_char d = c"
  by (auto simp add: hex_val_def hex_char_def)

lemma hex_val_range: "hex_val c = Some d \<Longrightarrow> 0 \<le> d \<and> d < 16"
  by (auto simp add: hex_val_def split: if_splits)

lemma hex_char_cases:
  assumes "0 \<le> d" "d < 16"
  shows "d = 0 \<or> d = 1 \<or> d = 2 \<or> d = 3 \<or> d = 4 \<or> d = 5 \<or> d = 6 \<or> d = 7 \<or> d = 8
       \<or> d = 9 \<or> d = 10 \<or> d = 11 \<or> d = 12 \<or> d = 13 \<or> d = 14 \<or> d = (15::int)"
  using assms by arith

lemma hex_char_lower: "0 \<le> d \<Longrightarrow> d < 16 \<Longrightarrow> hex_char d \<in> set ''0123456789abcdef''"
  using hex_char_cases[of d] by (auto simp add: hex_char_def)

lemma hex_char_variant: "8 \<le> d \<Longrightarrow> d < 12 \<Longrightarrow> hex_char d \<in> set ''89ab''"
proof -
  assume "8 \<le> d" "d < 12"
  then have "d = 8 \<or> d = 9 \<or> d = 10 \<or> d = 11" by arith
  then show ?thesis by (auto simp add: hex_char_def)
qed

lemma hex_val_variant:
  "c \<in> set ''89ab'' \<Longrightarrow> \<exists>d. hex_val c = Some d \<and> 8 \<le> d \<and> d < 12"
  by (auto simp add: hex_val_def)

lemma hex_val_4: "hex_val (CHR ''4'') = Some 4"
  by (simp add: hex_val_def)

lemma length_fixed_hex [simp]: "length (fixed_hex k n) = k"
  by (induction k arbitrary: n) simp_all

lemma fixed_hex_zero: "fixed_hex k 0 = replicate k CHR ''0''"
  by (induction k) (simp_all add: hex_char_def replicate_append_same)

lemma fixed_hex_nth:
  "i < k \<Longrightarrow> fixed_hex k n ! i = hex_char ((n div 16 ^ (k - 1 - i)) mod 16)"
proof (induction k arbitrary: n i)
  case 0
  then show ?case by simp
next
  case (Suc k)
  show ?case
  proof (cases "i < k")
    case True
    then have "fixed_hex (Suc k) n ! i = fixed_hex k (n div 16) ! i"
      by (simp add: nth_append)
    also have "\<dots> = hex_char ((n div 16 div 16 ^ (k - 1 - i)) mod 16)"
      using Suc.IH[OF True] by simp
    also have "n div 16 div 16 ^ (k - 1 - i) = n div 16 ^ (Suc k - 1 - i)"
    proof -
      have "Suc k - 1 - i = Suc (k - 1 - i)" using True by simp
      then show ?thesis by (simp add: zdiv_zmult2_eq)
    qed
    finally show ?thesis .
  next
    case False
    then have "i = k" using Suc.prems by simp
    then show ?thesis by (simp add: nth_append)
  qed
qed

lemma hex_digits_small: "n < 16 \<Longrightarrow> hex_digits n = [hex_char n]"
  by (subst hex_digits.simps) simp

lemma hex_digits_big:
  "\<not> n < 16 \<Longrightarrow> hex_digits n = hex_digits (n div 16) @ [hex_char (n mod 16)]"
  by (subst hex_digits.simps) simp

lemma hex_digits_pad:
  "0 \<le> n \<Longrightarrow> n < 16 ^ Suc k \<Longrightarrow>
     length (hex_digits n) \<le> Suc k
     \<and> replicate (Suc k - length (hex_digits n)) CHR ''0'' @ hex_digits n = fixed_hex (Suc k) n"
proof (induction k arbitrary: n)
  case 0
  then show ?case by (simp add: hex_digits_small)
next
  case (Suc k)
  show ?case
  proof (cases "n < 16")
    case True
    then have "n div 16 = 0" "n mod 16 = n" using Suc.prems by simp_all
    then show ?thesis
      using True by (simp add: hex_digits_small fixed_hex_zero replicate_append_same)
  next
    case False
    have "0 \<le> n div 16" "n div 16 < 16 ^ Suc k" using Suc.prems by auto
    from Suc.IH[OF this]
    show ?thesis using False by (simp add: hex_digits_big Suc_diff_le)
  qed
qed

lemma UUID_hex_fixed:
  assumes "0 \<le> n" "n < 16 ^ 32"
  shows "UUID_hex n = fixed_hex 32 n"
proof -
  have "n < 16 ^ Suc 31" using assms by simp
  from hex_digits_pad[OF assms(1) this] show ?thesis
    using assms by (simp add: UUID_hex_def Let_def del: fixed_hex.simps)
qed


lemma py_int16_fold: "s \<noteq> [] \<Longrightarrow> py_int16 s = foldl hex_step (Some 0) s"
  by (simp add: py_int16_def)

lemma hex_step_Some:
  "hex_step x c = Some v \<longleftrightarrow> (\<exists>a d. x = Some a \<and> hex_val c = Some d \<and> v = 16 * a + d)"
  by (cases x; cases "hex_val c") (auto simp add: hex_step_def)

lemma fold_hex_range:
  "foldl hex_step (Some 0) s = Some v \<Longrightarrow> 0 \<le> v \<and> v < 16 ^ length s"
proof (induction s arbitrary: v rule: rev_induct)
  case Nil
  then show ?case by simp
next
  case (snoc c s)
  from snoc.prems obtain a d where a: "foldl hex_step (Some 0) s = Some a"
    and d: "hex_val c = Some d" and v: "v = 16 * a + d"
    by (auto simp add: hex_step_Some)
  from snoc.IH[OF a] hex_val_range[OF d] show ?case
    unfolding v by auto
qed

lemma fold_hex_lower:
  "set s \<subseteq> set ''0123456789abcdef'' \<Longrightarrow>
     \<exists>v. foldl hex_step (Some 0) s = Some v \<and> fixed_hex (length s) v = s"
proof (induction s rule: rev_induct)
  case Nil
  then show ?case by simp
next
  case (snoc c s)
  then obtain v where v: "foldl hex_step (Some 0) s = Some v" "fixed_hex (length s) v = s"
    by auto
  have "c \<in> set ''0123456789abcdef''" using snoc.prems by simp
  then obtain d where d: "hex_val c = Some d" "0 \<le> d" "d < 16" "hex_char d = c"
    using hex_lower_cases by blast
  have "(16 * v + d) div 16 = v" "(16 * v + d) mod 16 = d" using d by auto
  then show ?case using v d by (simp add: hex_step_Some)
qed

lemma pow16: "(16::int) ^ j = 2 ^ (4 * j)"
  by (simp add: power_mult)

lemma nibble_div: "nibble j n = (n div 16 ^ j) mod 16"
  by (simp add: nibble_def drop_bit_eq_div take_bit_eq_mod pow16)

lemma bit_nibble: "bit (nibble k n) j \<longleftrightarrow> j < 4 \<and> bit n (4 * k + j)"
  by (simp add: nibble_def bit_take_bit_iff bit_drop_bit_eq)

lemma bit_push_mask: "bit (push_bit m (mask k :: int)) i \<longleftrightarrow> m \<le> i \<and> i < m + k"
  by (auto simp add: bit_push_bit_iff bit_mask_iff)

lemma bit_c000: "bit (push_bit 48 (0xc000::int)) i \<longleftrightarrow> i = 62 \<or> i = 63"
proof -
  have "push_bit 48 (0xc000::int) = push_bit 62 (mask 2)" by (simp add: mask_eq_exp_minus_1)
  then show ?thesis by (simp only: bit_push_mask) arith
qed

lemma bit_8000: "bit (push_bit 48 (0x8000::int)) i \<longleftrightarrow> i = 63"
proof -
  have "push_bit 48 (0x8000::int) = push_bit 63 (mask 1)" by (simp add: mask_eq_exp_minus_1)
  then show ?thesis by (simp only: bit_push_mask) arith
qed

lemma bit_f000: "bit (push_bit 64 (0xf000::int)) i \<longleftrightarrow> 76 \<le> i \<and> i < 80"
proof -
  have "push_bit 64 (0xf000::int) = push_bit 76 (mask 4)" by (simp add: mask_eq_exp_minus_1)
  then show ?thesis by (simp only: bit_push_mask) arith
qed

lemma bit_v4: "bit (push_bit 76 (4::int)) i \<longleftrightarrow> i = 78"
proof -
  have "push_bit 76 (4::int) = push_bit 78 (mask 1)" by (simp add: mask_eq_exp_minus_1)
  then show ?thesis by (simp only: bit_push_mask) arith
qed

lemma bit_4: "bit (4::int) j \<longleftrightarrow> j = 2"
proof -
  have "(4::int) = push_bit 2 (mask 1)" by (simp add: mask_eq_exp_minus_1)
  then show ?thesis by (simp only: bit_push_mask) arith
qed

lemma bit_8: "bit (8::int) j \<longleftrightarrow> j = 3"
proof -
  have "(8::int) = push_bit 3 (mask 1)" by (simp add: mask_eq_exp_minus_1)
  then show ?thesis by (simp only: bit_push_mask) arith
qed

lemma bit_set_version:
  "bit (set_version 4 n) i \<longleftrightarrow>
     (if i = 78 \<or> i = 63 then True
      else if i = 62 \<or> (76 \<le> i \<and> i < 80) then False
      else bit n i)"
  unfolding set_version_def Let_def
  by (simp only: bit_or_iff bit_and_iff bit_not_iff_eq bit_c000 bit_8000 bit_f000 bit_v4) auto

lemma nibble_set_version:
  "nibble k (set_version 4 n) =
     (if k = 19 then 4 else if k = 15 then 8 OR take_bit 2 (nibble 15 n) else nibble k n)"
proof (rule bit_eqI)
  fix j
  show "bit (nibble k (set_version 4 n)) j =
        bit (if k = 19 then 4 else if k = 15 then 8 OR take_bit 2 (nibble 15 n) else nibble k n) j"
  proof (cases "k = 19")
    case True
    then show ?thesis by (auto simp add: bit_nibble bit_set_version bit_4)
  next
    case False
    show ?thesis
    proof (cases "k = 15")
      case True
      then show ?thesis
        by (auto simp add: bit_nibble bit_set_version bit_or_iff bit_8 bit_take_bit_iff)
    next
      case F2: False
      have "4 * k + j \<noteq> 78" "4 * k + j \<noteq> 63" "4 * k + j \<noteq> 62" if "j < 4"
        using that False F2 by arith+
      moreover have "\<not> (76 \<le> 4 * k + j \<and> 4 * k + j < 80)" if "j < 4"
        using that False F2 by arith
      ultimately show ?thesis using False F2
        by (auto simp add: bit_nibble bit_set_version)
    qed
  qed
qed

lemma set_version_range:
  assumes "0 \<le> n" "n < 2 ^ 128"
  shows "0 \<le> set_version 4 n \<and> set_version 4 n < 2 ^ 128"
proof -
  have n: "take_bit 128 n = n" using assms by (simp add: take_bit_int_eq_self)
  have "take_bit 128 (set_version 4 n) = set_version 4 n"
  proof (rule bit_eqI)
    fix i
    have "bit n i \<Longrightarrow> i < 128"
      using n by (metis bit_take_bit_iff)
    then show "bit (take_bit 128 (set_version 4 n)) i = bit (set_version 4 n) i"
      by (auto simp add: bit_take_bit_iff bit_set_version)
  qed
  then show ?thesis
    by (metis take_bit_int_less_exp take_bit_nonnegative)
qed

lemma variant_or: "8 \<le> x \<Longrightarrow> x < 12 \<Longrightarrow> 8 OR take_bit 2 x = (x::int)"
proof -
  assume "8 \<le> x" "x < 12"
  then have "x = 8 \<or> x = 9 \<or> x = 10 \<or> x = 11" by arith
  then show ?thesis by auto
qed

lemma variant_range: "8 \<le> (8 OR take_bit 2 x :: int) \<and> 8 OR take_bit 2 x < 12"
proof -
  have "0 \<le> take_bit 2 x" "take_bit 2 x < 4"
    using take_bit_int_less_exp[of 2 x] by simp_all
  then have "take_bit 2 x = 0 \<or> take_bit 2 x = 1 \<or> take_bit 2 x = 2 \<or> take_bit 2 x = 3" by arith
  then show ?thesis by auto
qed


lemma set_fixed_hex: "set (fixed_hex k n) \<subseteq> set ''0123456789abcdef''"
proof (induction k arbitrary: n)
  case 0
  then show ?case by simp
next
  case (Suc k)
  have "hex_char (n mod 16) \<in> set ''0123456789abcdef''"
    by (rule hex_char_lower) simp_all
  then show ?case using Suc.IH[of "n div 16"] by simp
qed

lemma fixed_hex_nibble: "i < k \<Longrightarrow> fixed_hex k n ! i = hex_char (nibble (k - 1 - i) n)"
  by (simp add: fixed_hex_nth nibble_div)

lemma nibble_range: "0 \<le> nibble k n \<and> nibble k n < 16"
  by (simp add: nibble_div)

lemma UUID_hex_set_version:
  assumes "0 \<le> n" "n < 16 ^ 32"
  shows "UUID_hex (set_version 4 n) =
           (fixed_hex 32 n)[12 := CHR ''4'', 16 := hex_char (8 OR take_bit 2 (nibble 15 n))]"
proof -
  have r: "0 \<le> set_version 4 n \<and> set_version 4 n < 2 ^ 128"
    using assms by (intro set_version_range) simp_all
  then have u: "UUID_hex (set_version 4 n) = fixed_hex 32 (set_version 4 n)"
    by (intro UUID_hex_fixed) simp_all
  show ?thesis
    unfolding u
  proof (rule nth_equalityI)
    show "length (fixed_hex 32 (set_version 4 n)) =
          length ((fixed_hex 32 n)[12 := CHR ''4'', 16 := hex_char (8 OR take_bit 2 (nibble 15 n))])"
      by simp
  next
    fix i
    assume "i < length (fixed_hex 32 (set_version 4 n))"
    then have i: "i < 32" by simp
    have a: "31 - i = 19 \<longleftrightarrow> i = 12" "31 - i = 15 \<longleftrightarrow> i = 16" using i by arith+
    have h4: "hex_char 4 = CHR ''4''" by (simp add: hex_char_def)
    show "fixed_hex 32 (set_version 4 n) ! i =
          (fixed_hex 32 n)[12 := CHR ''4'', 16 := hex_char (8 OR take_bit 2 (nibble 15 n))] ! i"
      using i a
      by (simp add: fixed_hex_nibble nibble_set_version nth_list_update h4 del: fixed_hex.simps)
  qed
qed

lemma uuid4_token_set_version:
  assumes "0 \<le> n" "n < 16 ^ 32"
  shows "uuid4_token (UUID_hex (set_version 4 n))"
proof -
  let ?v = "hex_char (8 OR take_bit 2 (nibble 15 n))"
  have v: "?v \<in> set ''89ab''"
    using variant_range[of "nibble 15 n"] by (intro hex_char_variant) simp_all
  have v': "?v \<in> set ''0123456789abcdef''"
    using variant_range[of "nibble 15 n"] by (intro hex_char_lower) simp_all
  have c4: "CHR ''4'' \<in> set ''0123456789abcdef''" by simp
  have sub: "set ((fixed_hex 32 n)[12 := CHR ''4'', 16 := ?v]) \<subseteq> set ''0123456789abcdef''"
    by (intro set_update_subsetI set_fixed_hex v' c4)
  have len: "length ((fixed_hex 32 n)[12 := CHR ''4'', 16 := ?v]) = 32" by simp
  have n16: "(fixed_hex 32 n)[12 := CHR ''4'', 16 := ?v] ! 16 = ?v"
    by (rule nth_list_update_eq) simp
  have "(fixed_hex 32 n)[12 := CHR ''4'', 16 := ?v] ! 12 = (fixed_hex 32 n)[12 := CHR ''4''] ! 12"
    by (rule nth_list_update_neq) simp
  also have "\<dots> = CHR ''4''" by (rule nth_list_update_eq) simp
  finally have n12: "(fixed_hex 32 n)[12 := CHR ''4'', 16 := ?v] ! 12 = CHR ''4''" .
  show ?thesis
    unfolding uuid4_token_def UUID_hex_set_version[OF assms]
    using len sub n12 n16 v by (simp only: simp_thms)
qed

lemma str_replace_id:
  "old \<noteq> [] \<Longrightarrow> hd old \<notin> set s \<Longrightarrow> str_replace old new s = s"
proof (induction s)
  case Nil
  then show ?case by (simp add: str_replace.simps)
next
  case (Cons c s)
  have "\<not> prefix old (c # s)" using Cons.prems by (cases old) auto
  then show ?case using Cons by (subst str_replace.simps) simp
qed

lemma dropWhile_id: "\<forall>c \<in> set s. \<not> P c \<Longrightarrow> dropWhile P s = s"
  by (cases s) simp_all

lemma str_strip_chars_id: "set s \<inter> set chars = {} \<Longrightarrow> str_strip_chars chars s = s"
proof -
  assume a: "set s \<inter> set chars = {}"
  then have 1: "dropWhile (\<lambda>c. c \<in> set chars) s = s" by (intro dropWhile_id) auto
  from a have 2: "dropWhile (\<lambda>c. c \<in> set chars) (rev s) = rev s" by (intro dropWhile_id) auto
  show ?thesis by (simp add: str_strip_chars_def 1 2)
qed

lemma hex_char_variant_inv:
  assumes "0 \<le> x" "x < 16" "hex_char x \<in> set ''89ab''"
  shows "8 \<le> x \<and> x < 12"
  using hex_char_cases[OF assms(1,2)] assms(3) by (auto simp add: hex_char_def)

lemma is_uuid_token:
  assumes t: "uuid4_token s"
  shows "is_uuid s"
proof -
  from t have len: "length s = 32" and hx: "set s \<subseteq> set ''0123456789abcdef''"
    and s12: "s ! 12 = CHR ''4''" and s16: "s ! 16 \<in> set ''89ab''"
    by (simp_all add: uuid4_token_def)
  have ne: "s \<noteq> []" using len by auto
  have n1: "str_replace ''urn:'' [] s = s" using hx by (intro str_replace_id) auto
  have n2: "str_replace ''uuid:'' [] s = s" using hx by (intro str_replace_id) auto
  have n3: "str_strip_chars ''{}'' s = s" using hx by (intro str_strip_chars_id) auto
  have n4: "str_replace ''-'' [] s = s" using hx by (intro str_replace_id) auto
  obtain v where v: "foldl hex_step (Some 0) s = Some v" and fx: "fixed_hex 32 v = s"
    using fold_hex_lower[OF hx] len by auto
  have rng: "0 \<le> v" "v < 16 ^ 32" using fold_hex_range[OF v] len by simp_all
  have U: "UUID_of_hex s = Inr (set_version 4 v)"
    using len ne v by (simp add: UUID_of_hex_def Let_def n1 n2 n3 n4 py_int16_def)
  have "s ! 16 = hex_char (nibble 15 v)"
    using fixed_hex_nibble[of 16 32 v] fx by simp
  then have "8 \<le> nibble 15 v \<and> nibble 15 v < 12"
    using hex_char_variant_inv[of "nibble 15 v"] nibble_range[of 15 v] s16 by simp
  then have "8 OR take_bit 2 (nibble 15 v) = nibble 15 v" by (intro variant_or) simp_all
  then have "hex_char (8 OR take_bit 2 (nibble 15 v)) = s ! 16"
    using \<open>s ! 16 = hex_char (nibble 15 v)\<close> by simp
  moreover have "s[12 := CHR ''4''] = s" using list_update_id[of s 12] s12 by simp
  ultimately have "s[12 := CHR ''4'', 16 := hex_char (8 OR take_bit 2 (nibble 15 v))] = s"
    by (simp only: list_update_id)
  then have "UUID_hex (set_version 4 v) = s"
    using UUID_hex_set_version[OF rng] fx by (simp only:)
  then show ?thesis by (simp add: is_uuid_def U)
qed

lemma token_is_uuid:
  assumes u: "is_uuid s"
  shows "uuid4_token s"
proof -
  let ?h = "str_replace ''-'' [] (str_strip_chars ''{}'' (str_replace ''uuid:'' [] (str_replace ''urn:'' [] s)))"
  from u obtain val where val: "UUID_of_hex s = Inr val" and hx: "UUID_hex val = s"
    by (auto simp add: is_uuid_def split: sum.splits)
  from val have len: "length ?h = 32"
    by (auto simp add: UUID_of_hex_def Let_def split: if_splits)
  from val len obtain n where n: "py_int16 ?h = Some n" and v: "val = set_version 4 n"
    by (auto simp add: UUID_of_hex_def Let_def split: option.splits)
  have "?h \<noteq> []" using len by auto
  then have "foldl hex_step (Some 0) ?h = Some n" using n by (simp add: py_int16_def)
  then have "0 \<le> n" "n < 16 ^ 32" using fold_hex_range len by fastforce+
  then have "uuid4_token (UUID_hex (set_version 4 n))" by (rule uuid4_token_set_version)
  then show ?thesis using hx v by simp
qed

lemma is_uuid_iff: "is_uuid s \<longleftrightarrow> uuid4_token s"
  using is_uuid_token token_is_uuid by blast


lemma hex_not_space: "set ''0123456789abcdef'' \<inter> set whitespace = {}"
  by code_simp

lemma assign_where_map:
  "assign_where (map p xs) v (map f xs) = map (\<lambda>x. if p x then v else f x) xs"
  by (induction xs) (simp_all add: assign_where_def)

lemma zip_and_map:
  "map (\<lambda>(a, b). a \<and> b) (zip (map p xs) (map q xs)) = map (\<lambda>x. p x \<and> q x) xs"
  by (induction xs) simp_all

lemma zip_map_right: "zip xs (map f xs) = map (\<lambda>x. (x, f x)) xs"
  by (induction xs) simp_all

lemma starts_f_not_d: "startswith u ''f'' \<Longrightarrow> \<not> startswith u ''d''"
  by (cases u) (auto simp add: startswith_def)

lemma starts_pub_not_svc: "startswith u ''pub://'' \<Longrightarrow> \<not> startswith u ''svc://''"
  by (cases u) (auto simp add: startswith_def)

lemma classify_df_rows: "classify_df uris = map (\<lambda>u. (u, uri_type u)) uris"
proof -
  have "(if is_uuid u \<and> startswith u ''d'' then ''datasets''
         else if is_uuid u \<and> startswith u ''f'' then ''features''
         else if startswith u ''pub://'' then ''publishers''
         else if startswith u ''svc://'' then ''services'' else ''collections'') = uri_type u" for u
    using starts_f_not_d[of u] starts_pub_not_svc[of u] by (simp add: uri_type_def)
  then show ?thesis
    by (simp add: classify_df_def Let_def assign_where_map zip_and_map zip_map_right)
qed

lemma uri_type_name: "uri_type u \<in> set type_names"
  by (simp add: uri_type_def type_names_def)

lemma groups_member:
  "(t, us) \<in> set (groups df) \<longleftrightarrow>
     t \<in> set type_names \<and> t \<in> snd ` set df \<and> us = map fst (filter (\<lambda>row. snd row = t) df)"
  by (auto simp add: groups_def)

section \<open>Classification and generated identifiers\<close>

lemma groups_of_rows:
  "(t, us) \<in> set (groups (map (\<lambda>u. (u, f u)) uris)) \<Longrightarrow> (u \<in> set us \<longleftrightarrow> u \<in> set uris \<and> t = f u)"
  by (auto simp add: groups_member filter_map comp_def)

lemma groups_has_type:
  assumes "u \<in> set uris" "f u \<in> set type_names"
  shows "\<exists>us. (f u, us) \<in> set (groups (map (\<lambda>u. (u, f u)) uris))"
  using assms by (force simp add: groups_member)

text \<open>
  Claim C7, as amended. \<^verbatim>\<open>classify_uris\<close> gives each input string one type, which depends
  on the string alone: the row of a uri \<open>u\<close> in the data frame carries \<open>uri_type u\<close>, that
  is \<^verbatim>\<open>features\<close> for a uuid4 token that begins with \<^verbatim>\<open>f\<close>, \<^verbatim>\<open>datasets\<close> for one that
  begins with \<^verbatim>\<open>d\<close>, \<^verbatim>\<open>services\<close> for the prefix \<^verbatim>\<open>svc://\<close>, \<^verbatim>\<open>publishers\<close> for the prefix
  \<^verbatim>\<open>pub://\<close>, and \<^verbatim>\<open>collections\<close> for every other string. A uuid4 token is what
  \<^verbatim>\<open>is_uuid\<close> accepts: 32 lower-case hexadecimal digits with the version digit \<^verbatim>\<open>4\<close> at
  position 12 and a variant digit among \<^verbatim>\<open>8 9 a b\<close> at position 16. In the groups each uri
  of the input is listed under its type and under no other, and with
  \<^verbatim>\<open>require_same_type=False\<close> and no \<^verbatim>\<open>exclude\<close> the call does not raise.
\<close>

theorem classify_uris_types:
  "(is_uuid u \<longleftrightarrow> uuid4_token u)
   \<and> classify_df uris = map (\<lambda>u. (u, uri_type u)) uris
   \<and> uri_type u \<in> set type_names
   \<and> (\<forall>t us. (t, us) \<in> set (groups (classify_df uris)) \<longrightarrow>
         (u \<in> set us \<longleftrightarrow> u \<in> set uris \<and> t = uri_type u))
   \<and> (u \<in> set uris \<longrightarrow> (\<exists>us. (uri_type u, us) \<in> set (groups (classify_df uris))))
   \<and> classify_uris (UriList uris) grouped as_dataframe False None =
        Inr (if \<not> as_dataframe then Groups (groups (classify_df uris))
             else if grouped then GroupBy (groups (classify_df uris))
             else Frame (classify_df uris))"
proof (intro conjI)
  show "is_uuid u \<longleftrightarrow> uuid4_token u" by (rule is_uuid_iff)
  show "classify_df uris = map (\<lambda>u. (u, uri_type u)) uris" by (rule classify_df_rows)
  show "uri_type u \<in> set type_names" by (rule uri_type_name)
  show "\<forall>t us. (t, us) \<in> set (groups (classify_df uris)) \<longrightarrow>
         (u \<in> set us \<longleftrightarrow> u \<in> set uris \<and> t = uri_type u)"
    using groups_of_rows[of _ _ uri_type uris u] by (simp only: classify_df_rows) blast
  show "u \<in> set uris \<longrightarrow> (\<exists>us. (uri_type u, us) \<in> set (groups (classify_df uris)))"
    using groups_has_type[of u uris uri_type] uri_type_name[of u]
    by (simp only: classify_df_rows) blast
  show "classify_uris (UriList uris) grouped as_dataframe False None =
        Inr (if \<not> as_dataframe then Groups (groups (classify_df uris))
             else if grouped then GroupBy (groups (classify_df uris))
             else Frame (classify_df uris))"
    by (simp add: classify_uris_def listify_def Let_def)
qed


theorem classify_uris_types_witness:
  "groups (classify_df [''f123456789ab4cde80123456789abcde'', ''d123456789ab4cde80123456789abcde'',
                        ''svc://a:b'', ''pub://c'', ''rawcollection''])
     = [(''collections'', [''rawcollection'']),
        (''datasets'', [''d123456789ab4cde80123456789abcde'']),
        (''features'', [''f123456789ab4cde80123456789abcde'']),
        (''publishers'', [''pub://c'']),
        (''services'', [''svc://a:b''])]"
proof -
  let ?uris = "[''f123456789ab4cde80123456789abcde'', ''d123456789ab4cde80123456789abcde'',
                ''svc://a:b'', ''pub://c'', ''rawcollection'']"
  have u1: "is_uuid ''f123456789ab4cde80123456789abcde''"
    using classify_uris_types[of "''f123456789ab4cde80123456789abcde''" "[]" True True]
    by (simp add: uuid4_token_def)
  have u2: "is_uuid ''d123456789ab4cde80123456789abcde''"
    using classify_uris_types[of "''d123456789ab4cde80123456789abcde''" "[]" True True]
    by (simp add: uuid4_token_def)
  have u3: "\<not> is_uuid ''svc://a:b''"
    using classify_uris_types[of "''svc://a:b''" "[]" True True]
    by (simp add: uuid4_token_def)
  have u4: "\<not> is_uuid ''pub://c''"
    using classify_uris_types[of "''pub://c''" "[]" True True]
    by (simp add: uuid4_token_def)
  have u5: "\<not> is_uuid ''rawcollection''"
    using classify_uris_types[of "''rawcollection''" "[]" True True]
    by (simp add: uuid4_token_def)
  have "classify_df ?uris = map (\<lambda>u. (u, uri_type u)) ?uris"
    using classify_uris_types[of "[]" ?uris True True] by blast
  then show ?thesis
    by (simp add: uri_type_def u1 u2 u3 u4 u5 startswith_def groups_def type_names_def)
qed

text \<open>
  The claim as first stated takes every 32-character hexadecimal UUID token. The two
  tokens below have 32 lower-case hexadecimal digits and begin with \<^verbatim>\<open>f\<close> and \<^verbatim>\<open>d\<close>;
  \<^verbatim>\<open>UUID(token, version=4)\<close> accepts them and turns them into uuid4 values whose \<^verbatim>\<open>hex\<close>
  differs from the token, so \<^verbatim>\<open>is_uuid\<close> answers False and both are classified as
  \<^verbatim>\<open>collections\<close>.
\<close>

theorem classify_uris_types_counterexample:
  "length ''f0000000000000000000000000000000'' = 32
   \<and> set ''f0000000000000000000000000000000'' \<subseteq> set ''0123456789abcdef''
   \<and> startswith ''f0000000000000000000000000000000'' ''f''
   \<and> map_sum id UUID_hex (UUID_of_hex ''f0000000000000000000000000000000'')
       = Inr ''f0000000000040008000000000000000''
   \<and> classify_df [''f0000000000000000000000000000000'']
       = [(''f0000000000000000000000000000000'', ''collections'')]
   \<and> length ''dddddddddddddddddddddddddddddddd'' = 32
   \<and> set ''dddddddddddddddddddddddddddddddd'' \<subseteq> set ''0123456789abcdef''
   \<and> startswith ''dddddddddddddddddddddddddddddddd'' ''d''
   \<and> map_sum id UUID_hex (UUID_of_hex ''dddddddddddddddddddddddddddddddd'')
       = Inr ''dddddddddddd4ddd9ddddddddddddddd''
   \<and> classify_df [''dddddddddddddddddddddddddddddddd'']
       = [(''dddddddddddddddddddddddddddddddd'', ''collections'')]"
proof -
  have a: "map_sum id UUID_hex (UUID_of_hex ''f0000000000000000000000000000000'')
       = Inr ''f0000000000040008000000000000000''"
    by code_simp
  have b: "map_sum id UUID_hex (UUID_of_hex ''dddddddddddddddddddddddddddddddd'')
       = Inr ''dddddddddddd4ddd9ddddddddddddddd''"
    by code_simp
  have c: "\<not> is_uuid ''f0000000000000000000000000000000''"
    "\<not> is_uuid ''dddddddddddddddddddddddddddddddd''"
    by (simp_all add: is_uuid_iff uuid4_token_def)
  show ?thesis
    using a b c by (simp add: classify_df_rows uri_type_def startswith_def)
qed

lemma drop1_token:
  assumes "uuid4_token s" "c \<in> set ''0123456789abcdef''"
  shows "uuid4_token ([c] @ drop 1 s)"
proof -
  from assms(1) have len: "length s = 32" and hx: "set s \<subseteq> set ''0123456789abcdef''"
    and s12: "s ! 12 = CHR ''4''" and s16: "s ! 16 \<in> set ''89ab''"
    by (simp_all add: uuid4_token_def)
  obtain x xs where s: "s = x # xs" using len by (cases s) auto
  have "set xs \<subseteq> set ''0123456789abcdef''" using hx s by simp
  then have sub: "set (c # xs) \<subseteq> set ''0123456789abcdef''" using assms(2) by simp
  have "(c # xs) ! 12 = s ! 12" "(c # xs) ! 16 = s ! 16" "length (c # xs) = 32"
    using s len by simp_all
  then show ?thesis
    unfolding uuid4_token_def using sub s12 s16 s by (simp only: append_Cons append_Nil drop_Suc_Cons drop0 One_nat_def simp_thms)
qed

lemma uuid4_hex_token: "uuid4_token (UUID_hex (uuid4 rnd))"
proof -
  have "uint rnd < 2 ^ 128" using uint_lt2p[of rnd] by simp
  then have "uint rnd < 16 ^ 32" by simp
  then show ?thesis
    unfolding uuid4_def by (intro uuid4_token_set_version) simp_all
qed

lemma uuid_other:
  "rt \<noteq> ''feature'' \<Longrightarrow> rt \<noteq> ''dataset'' \<Longrightarrow> uuid rt rnd = UUID_hex (uuid4 rnd)"
  by (simp add: uuid_def Let_def)

lemma uuid_feature: "uuid ''feature'' rnd = ''f'' @ drop 1 (UUID_hex (uuid4 rnd))"
  by (simp add: uuid_def Let_def)

lemma uuid_dataset: "uuid ''dataset'' rnd = ''d'' @ drop 1 (UUID_hex (uuid4 rnd))"
  by (simp add: uuid_def Let_def)

lemma uuid_token: "uuid4_token (uuid rt rnd)"
proof -
  have f: "CHR ''f'' \<in> set ''0123456789abcdef''" and d: "CHR ''d'' \<in> set ''0123456789abcdef''"
    by simp_all
  consider "rt = ''feature''" | "rt = ''dataset''" | "rt \<noteq> ''feature''" "rt \<noteq> ''dataset''"
    by blast
  then show ?thesis
  proof cases
    case 1
    then show ?thesis
      using drop1_token[OF uuid4_hex_token f, of rnd] by (simp only: uuid_feature)
  next
    case 2
    then show ?thesis
      using drop1_token[OF uuid4_hex_token d, of rnd] by (simp only: uuid_dataset)
  next
    case 3
    then show ?thesis using uuid4_hex_token[of rnd] by (simp add: uuid_other)
  qed
qed

lemma listify_token:
  assumes "uuid4_token s"
  shows "listify (UriStr s) = [s]"
proof -
  from assms have hx: "set s \<subseteq> set ''0123456789abcdef''" by (simp add: uuid4_token_def)
  have "CHR '','' \<notin> set ''0123456789abcdef''" by simp
  then have "CHR '','' \<notin> set s" using hx by blast
  then have sp: "str_split '','' None s = [s]"
    by (intro str_split_no_sep not_sublist_char)
  have "set s \<inter> set whitespace = {}" using hx hex_not_space by blast
  then have "str_strip s = s" unfolding str_strip_def by (rule str_strip_chars_id)
  then show ?thesis by (simp add: listify_def sp)
qed

lemma groups_single: "t \<in> set type_names \<Longrightarrow> groups [(u, t)] = [(t, [u])]"
  by (auto simp add: groups_def type_names_def)

text \<open>
  Claim C10. Whatever the sixteen random bytes are, \<^verbatim>\<open>uuid(resource_type)\<close> is a token that
  \<^verbatim>\<open>is_uuid\<close> accepts (32 lower-case hexadecimal digits, version digit \<^verbatim>\<open>4\<close>, variant digit
  among \<^verbatim>\<open>8 9 a b\<close>): the first character is replaced, the version and variant digits are
  not. \<^verbatim>\<open>uuid('feature')\<close> is classified as \<^verbatim>\<open>features\<close> and \<^verbatim>\<open>uuid('dataset')\<close> as
  \<^verbatim>\<open>datasets\<close>, passed to \<^verbatim>\<open>classify_uris\<close> in a list or as a string; for any other
  resource type the token of \<^verbatim>\<open>uuid4().hex\<close> is returned as it is.
\<close>

theorem generated_ids_classify:
  "uuid4_token (UUID_hex (uuid4 rnd))
   \<and> uuid ''feature'' rnd = ''f'' @ drop 1 (UUID_hex (uuid4 rnd))
   \<and> uuid ''dataset'' rnd = ''d'' @ drop 1 (UUID_hex (uuid4 rnd))
   \<and> (rt \<noteq> ''feature'' \<and> rt \<noteq> ''dataset'' \<longrightarrow> uuid rt rnd = UUID_hex (uuid4 rnd))
   \<and> uuid4_token (uuid rt rnd) \<and> is_uuid (uuid rt rnd)
   \<and> classify_df [uuid ''feature'' rnd] = [(uuid ''feature'' rnd, ''features'')]
   \<and> classify_df [uuid ''dataset'' rnd] = [(uuid ''dataset'' rnd, ''datasets'')]
   \<and> classify_uris (UriStr (uuid ''feature'' rnd)) True False False None
       = Inr (Groups [(''features'', [uuid ''feature'' rnd])])
   \<and> classify_uris (UriStr (uuid ''dataset'' rnd)) True False False None
       = Inr (Groups [(''datasets'', [uuid ''dataset'' rnd])])"
proof -
  have tf: "uuid4_token (uuid ''feature'' rnd)" and td: "uuid4_token (uuid ''dataset'' rnd)"
    by (rule uuid_token)+
  have sf: "startswith (uuid ''feature'' rnd) ''f''" and sd: "startswith (uuid ''dataset'' rnd) ''d''"
    by (simp_all add: uuid_feature uuid_dataset startswith_def)
  have yf: "uri_type (uuid ''feature'' rnd) = ''features''"
    using tf sf by (simp add: uri_type_def is_uuid_iff)
  have yd: "uri_type (uuid ''dataset'' rnd) = ''datasets''"
    using td sd starts_f_not_d[of "uuid ''dataset'' rnd"] by (auto simp add: uri_type_def is_uuid_iff)
  have cf: "classify_df [uuid ''feature'' rnd] = [(uuid ''feature'' rnd, ''features'')]"
    by (simp add: classify_df_rows yf)
  have cd: "classify_df [uuid ''dataset'' rnd] = [(uuid ''dataset'' rnd, ''datasets'')]"
    by (simp add: classify_df_rows yd)
  have gf: "groups [(uuid ''feature'' rnd, ''features'')] = [(''features'', [uuid ''feature'' rnd])]"
    by (rule groups_single) (simp add: type_names_def)
  have gd: "groups [(uuid ''dataset'' rnd, ''datasets'')] = [(''datasets'', [uuid ''dataset'' rnd])]"
    by (rule groups_single) (simp add: type_names_def)
  have uf: "classify_uris (UriStr (uuid ''feature'' rnd)) True False False None
       = Inr (Groups [(''features'', [uuid ''feature'' rnd])])"
    by (simp add: classify_uris_def Let_def listify_token[OF tf] cf gf)
  have ud: "classify_uris (UriStr (uuid ''dataset'' rnd)) True False False None
       = Inr (Groups [(''datasets'', [uuid ''dataset'' rnd])])"
    by (simp add: classify_uris_def Let_def listify_token[OF td] cd gd)
  show ?thesis
    using uuid4_hex_token[of rnd] uuid_feature[of rnd] uuid_dataset[of rnd] uuid_other[of rt rnd]
      uuid_token[of rt rnd] is_uuid_token[OF uuid_token[of rt rnd]] cf cd uf ud
    by (simp only: simp_thms) blast
qed


theorem generated_ids_classify_witness:
  "uuid ''collection'' 0 = ''00000000000040008000000000000000''
   \<and> classify_df [''f0000000000040008000000000000000'']
       = [(''f0000000000040008000000000000000'', ''features'')]
   \<and> classify_uris (UriStr ''d0000000000040008000000000000000'') True False False None
       = Inr (Groups [(''datasets'', [''d0000000000040008000000000000000''])])"
proof -
  have f: "uuid ''feature'' 0 = ''f0000000000040008000000000000000''" by code_simp
  have d: "uuid ''dataset'' 0 = ''d0000000000040008000000000000000''" by code_simp
  have h: "UUID_hex (uuid4 0) = ''00000000000040008000000000000000''" by code_simp
  show ?thesis
    using generated_ids_classify[of 0 "''collection''"] by (simp add: f d h)
qed

section \<open>Facts about the registry functions\<close>

subsection \<open>Paths\<close>

lemma last_path_join: "b \<noteq> [] \<Longrightarrow> last (path_join a b) = last b"
  by (simp add: path_join_def)

lemma store_not_index: "path_join a PROJECT_DB_FILE \<noteq> path_join b PROJECT_INDEX_FILE"
proof
  assume "path_join a PROJECT_DB_FILE = path_join b PROJECT_INDEX_FILE"
  then have "last (path_join a PROJECT_DB_FILE) = last (path_join b PROJECT_INDEX_FILE)" by simp
  then show False
    by (simp add: last_path_join PROJECT_DB_FILE_def PROJECT_INDEX_FILE_def)
qed

lemma store_of_not_index [simp]: "store_of s folder \<noteq> index_file s'"
  by (simp add: store_of_def index_file_def store_not_index)

subsection \<open>What is kept\<close>

lemma same_env_refl [simp]: "same_env s s"
  by (simp add: same_env_def)

lemma same_env_trans: "same_env s s1 \<Longrightarrow> same_env s1 s2 \<Longrightarrow> same_env s s2"
  by (simp add: same_env_def)

lemma same_env_index_file: "same_env s s' \<Longrightarrow> index_file s' = index_file s"
  by (simp add: same_env_def index_file_def)

lemma same_env_resolve: "same_env s s' \<Longrightarrow> resolve s' f = resolve s f"
  by (simp add: same_env_def resolve_def)

lemma same_env_store_of: "same_env s s' \<Longrightarrow> store_of s' f = store_of s f"
  by (simp add: store_of_def same_env_resolve)

lemma files_kept_refl [simp]: "files_kept s s"
  by (simp add: files_kept_def)

lemma files_kept_trans: "files_kept s s1 \<Longrightarrow> files_kept s1 s2 \<Longrightarrow> files_kept s s2"
  by (simp add: files_kept_def same_env_def)

lemma stores_kept_refl [simp]: "stores_kept s s"
  by (simp add: stores_kept_def)

lemma stores_kept_trans: "stores_kept s s1 \<Longrightarrow> stores_kept s1 s2 \<Longrightarrow> stores_kept s s2"
  by (simp add: stores_kept_def same_env_def index_file_def)

lemma index_kept_refl [simp]: "index_kept s s"
  by (simp add: index_kept_def)

lemma index_kept_trans: "index_kept s s1 \<Longrightarrow> index_kept s1 s2 \<Longrightarrow> index_kept s s2"
  by (simp add: index_kept_def same_env_def)

lemma files_kept_stores: "files_kept s s' \<Longrightarrow> stores_kept s s'"
  by (simp add: files_kept_def stores_kept_def)

lemma files_kept_index: "files_kept s s' \<Longrightarrow> index_kept s s'"
  using same_env_index_file[of s s']
  by (auto simp add: files_kept_def index_kept_def index_def)

lemma files_kept_env: "files_kept s s' \<Longrightarrow> same_env s s'"
  by (simp add: files_kept_def)

lemma stores_kept_env: "stores_kept s s' \<Longrightarrow> same_env s s'"
  by (simp add: stores_kept_def)

lemma index_kept_env: "index_kept s s' \<Longrightarrow> same_env s s'"
  by (simp add: index_kept_def)

lemma files_keptD: "files_kept s s' \<Longrightarrow> files s p = Some c \<Longrightarrow> files s' p = Some c"
  by (simp add: files_kept_def)

lemma stores_keptD:
  "stores_kept s s' \<Longrightarrow> p \<noteq> index_file s \<Longrightarrow> files s p = Some c \<Longrightarrow> files s' p = Some c"
  by (simp add: stores_kept_def)

lemma index_keptD: "index_kept s s' \<Longrightarrow> index s = Some (Yaml a ps) \<Longrightarrow> index s' = Some (Yaml a ps)"
  by (simp add: index_kept_def)

subsection \<open>Reading the index\<close>

lemma read_index:
  "index s = Some (Yaml a ps) \<Longrightarrow> read_yaml (index_file s) s = Inr (a, ps)"
  by (simp add: read_yaml_def index_def)

lemma read_index_iff:
  "read_yaml (index_file s) s = Inr (a, ps) \<longleftrightarrow> index s = Some (Yaml a ps)"
  by (auto simp add: read_yaml_def index_def split: option.splits content.splits)

lemma read_index_fails:
  "(\<nexists>a ps. index s = Some (Yaml a ps)) \<Longrightarrow> \<exists>e. read_yaml (index_file s) s = Inl e"
  by (auto simp add: read_yaml_def index_def split: option.splits content.splits)

lemma load_projects_index:
  "index s = Some (Yaml a ps) \<Longrightarrow> load_projects s = Inr (projects_of ps)"
  by (simp add: load_projects_def read_index projects_of_def)

lemma get_active_index:
  "index s = Some (Yaml a ps) \<Longrightarrow> get_active_project s = Inr (active_of a)"
  by (simp add: get_active_project_def read_index active_of_def)

lemma get_projects_index:
  "index s = Some (Yaml a ps) \<Longrightarrow> get_projects s = Inr (map fst (projects_of ps))"
  by (simp add: get_projects_def load_projects_index)

lemma load_projects_Inr:
  "load_projects s = Inr projects \<Longrightarrow> \<exists>a ps. index s = Some (Yaml a ps) \<and> projects = projects_of ps"
  by (auto simp add: load_projects_def read_yaml_def index_def projects_of_def
      split: option.splits content.splits)

lemma get_projects_Inr:
  "get_projects s = Inr names \<Longrightarrow>
     \<exists>a ps. index s = Some (Yaml a ps) \<and> names = map fst (projects_of ps)"
  using load_projects_Inr[of s] by (auto simp add: get_projects_def split: sum.splits)




lemma map_of_key: "map_of ps n = Some v \<Longrightarrow> n \<in> set (map fst ps)"
  by (metis map_of_eq_None_iff option.distinct(1) set_map)


lemma delete_update_fresh:
  "n \<notin> set (map fst ps) \<Longrightarrow> AList.delete n (AList.update n v ps) = ps"
  by (induction ps) auto

lemma map_of_update_same: "map_of (AList.update n v ps) n = Some v"
  by (simp add: update_conv')

lemma lower_default [simp]: "lower ''default'' = ''default''"
  by (simp add: lower_def lower_char_def)

subsection \<open>Writing the index\<close>

lemma write_yaml_index:
  assumes "index s = Some c" and "write_yaml (index_file s) (a', ps') s = (r, s')"
  shows "(r = Inl OSError \<and> s' = s \<and> index_file s \<in> denied s)
       \<or> (r = Inr () \<and> index_file s \<notin> denied s
          \<and> s' = s\<lparr>files := (files s)(index_file s \<mapsto> Yaml a' ps')\<rparr>)"
  using assms by (auto simp add: write_yaml_def index_def split: if_splits)

lemma write_projects_index:
  assumes "index s = Some (Yaml a ps)" and "write_projects projects s = (r, s')"
  shows "(r = Inl OSError \<and> s' = s \<and> index_file s \<in> denied s)
       \<or> (r = Inr () \<and> index_file s \<notin> denied s
          \<and> s' = s\<lparr>files := (files s)(index_file s \<mapsto> Yaml a (Some projects))\<rparr>)"
  using assms write_yaml_index[of s "Yaml a ps" a "Some projects" r s']
  by (simp add: write_projects_def read_index)

lemma write_projects_unreadable:
  assumes "\<nexists>a ps. index s = Some (Yaml a ps)"
  shows "\<exists>e. write_projects projects s = (Inl e, s)"
  using read_index_fails[OF assms] by (auto simp add: write_projects_def)

lemma index_upd [simp]:
  "index (s\<lparr>files := (files s)(index_file s \<mapsto> c)\<rparr>) = Some c"
  by (simp add: index_def index_file_def)

lemma stores_kept_upd [simp]:
  "stores_kept s (s\<lparr>files := (files s)(index_file s \<mapsto> c)\<rparr>)"
  by (simp add: stores_kept_def same_env_def)

lemma same_env_upd [simp]: "same_env s (s\<lparr>files := f\<rparr>)" "same_env s (s\<lparr>dirs := d\<rparr>)"
  "same_env s (s\<lparr>connection := c\<rparr>)"
  by (simp_all add: same_env_def)

subsection \<open>Directories and stores\<close>

lemma makedirs_kept: "makedirs qs s = (r, s') \<Longrightarrow> files s' = files s \<and> same_env s s' \<and> dirs s \<subseteq> dirs s'"
proof (induction qs arbitrary: s)
  case Nil
  then show ?case by simp
next
  case (Cons q qs)
  show ?case
  proof (cases "q \<in> dirs s")
    case True
    then show ?thesis using Cons by simp
  next
    case False
    show ?thesis
    proof (cases "files s q \<noteq> None \<or> q \<in> denied s")
      case True
      then show ?thesis using Cons.prems False by auto
    next
      case ok: False
      then have "makedirs qs (s\<lparr>dirs := insert q (dirs s)\<rparr>) = (r, s')"
        using Cons.prems False by simp
      from Cons.IH[OF this] show ?thesis by (auto simp add: same_env_def)
    qed
  qed
qed

lemma makedirs_made: "makedirs qs s = (Inr u, s') \<Longrightarrow> set qs \<subseteq> dirs s'"
proof (induction qs arbitrary: s)
  case Nil
  then show ?case by simp
next
  case (Cons q qs)
  show ?case
  proof (cases "q \<in> dirs s")
    case True
    then have m: "makedirs qs s = (Inr u, s')" using Cons.prems by simp
    show ?thesis using Cons.IH[OF m] makedirs_kept[OF m] True by auto
  next
    case False
    then have m: "makedirs qs (s\<lparr>dirs := insert q (dirs s)\<rparr>) = (Inr u, s')"
      using Cons.prems by (simp split: if_splits)
    show ?thesis using Cons.IH[OF m] makedirs_kept[OF m] by auto
  qed
qed

lemma mkdir_kept:
  assumes "mkdir_if_doesnt_exist p s = (r, s')"
  shows "files s' = files s" "files_kept s s'" "dirs s \<subseteq> dirs s'"
  using assms makedirs_kept[of "parents p @ [p]" s r s']
  by (auto simp add: mkdir_if_doesnt_exist_def files_kept_def split: if_splits)

lemma mkdir_made: "mkdir_if_doesnt_exist p s = (Inr u, s') \<Longrightarrow> p \<in> dirs s'"
  using makedirs_made[of "parents p @ [p]" s u s']
  by (auto simp add: mkdir_if_doesnt_exist_def split: if_splits)

lemma mkdir_there: "p \<in> dirs s \<Longrightarrow> mkdir_if_doesnt_exist p s = (Inr (), s)"
  by (simp add: mkdir_if_doesnt_exist_def)

lemma init_db_kept:
  assumes "init_db p s = (r, s')"
  shows "files_kept s s'" "dirs s' = dirs s"
  using assms
  by (auto simp add: init_db_def files_kept_def split: option.splits content.splits if_splits)

lemma init_db_opened:
  assumes "init_db p s = (Inr u, s')"
  shows "\<exists>rows. files s' p = Some (Db rows)"
  using assms
  by (auto simp add: init_db_def split: option.splits content.splits if_splits)

lemma init_db_there:
  "files s p = Some (Db rows) \<Longrightarrow> init_db p s = (Inr (), s)"
  by (simp add: init_db_def)

lemma get_db_kept:
  assumes "get_db p s = (r, s')"
  shows "files_kept s s'"
proof -
  obtain r1 s1 where i: "init_db p s = (r1, s1)" by (cases "init_db p s")
  have "files_kept s1 s'" using assms i
    by (cases r1) (auto simp add: get_db_def files_kept_def same_env_def)
  then show ?thesis using init_db_kept(1)[OF i] files_kept_trans by blast
qed

lemma db_insert_kept:
  assumes "db_insert_project p row s = (r, s')"
  shows "index_kept s s'" "dirs s' = dirs s"
  using assms
  by (auto simp add: db_insert_project_def index_kept_def index_def index_file_def same_env_def
      split: option.splits content.splits if_splits)

lemma db_insert_done:
  assumes "db_insert_project p row s = (Inr u, s')"
  shows "\<exists>rows. files s' p = Some (Db (rows @ [row]))"
  using assms
  by (auto simp add: db_insert_project_def split: option.splits content.splits if_splits)



subsection \<open>Loading a project\<close>

lemma get_project_db_kept:
  assumes "get_project_db n s = (r, s')"
  shows "files_kept s s'" "files s' = files s" "dirs s \<subseteq> dirs s'"
proof -
  have "files_kept s s' \<and> files s' = files s \<and> dirs s \<subseteq> dirs s'"
  proof (cases "load_projects s")
    case (Inl e)
    then show ?thesis using assms by (simp add: get_project_db_def)
  next
    case (Inr projects)
    show ?thesis
    proof (cases "map_of projects n")
      case None
      then show ?thesis using assms Inr by (simp add: get_project_db_def split: if_splits)
    next
      case (Some folder)
      let ?path = "if \<not> isabs folder then path_join (projects_dir s) folder else folder"
      obtain r1 s1 where m: "mkdir_if_doesnt_exist ?path s = (r1, s1)"
        by (cases "mkdir_if_doesnt_exist ?path s")
      have "s' = s \<or> s' = s1"
        using assms Inr Some m by (cases r1) (auto simp add: get_project_db_def Let_def split: if_splits)
      then show ?thesis using mkdir_kept[OF m] by auto
    qed
  qed
  then show "files_kept s s'" "files s' = files s" "dirs s \<subseteq> dirs s'" by simp_all
qed

lemma get_project_db_Inr:
  assumes "get_project_db n s = (Inr dbpath, s')" and "index s = Some (Yaml a ps)"
  shows "\<exists>folder. map_of (projects_of ps) n = Some folder \<and> dbpath = store_of s folder
           \<and> resolve s folder \<in> dirs s'"
proof -
  have l: "load_projects s = Inr (projects_of ps)" using assms(2) by (rule load_projects_index)
  show ?thesis
  proof (cases "map_of (projects_of ps) n")
    case None
    then show ?thesis using assms(1) l by (simp add: get_project_db_def split: if_splits)
  next
    case (Some folder)
    obtain r1 s1 where m: "mkdir_if_doesnt_exist (resolve s folder) s = (r1, s1)"
      by (cases "mkdir_if_doesnt_exist (resolve s folder) s")
    have "r1 = Inr () \<and> s' = s1 \<and> dbpath = store_of s folder"
      using assms(1) l Some m
      by (cases r1) (auto simp add: get_project_db_def Let_def resolve_def store_of_def split: if_splits)
    then show ?thesis using mkdir_made[of "resolve s folder" s "()" s1] m Some by auto
  qed
qed

lemma load_project_kept:
  assumes "load_project n s = (r, s')"
  shows "files_kept s s'"
proof -
  obtain r1 s1 where g: "get_project_db n s = (r1, s1)" by (cases "get_project_db n s")
  note k1 = get_project_db_kept(1)[OF g]
  show ?thesis
  proof (cases r1)
    case (Inl e)
    then show ?thesis using assms g k1 by (simp add: load_project_def)
  next
    case (Inr dbpath)
    obtain r2 s2 where i: "init_db dbpath s1 = (r2, s2)" by (cases "init_db dbpath s1")
    have "s' = s2" using assms g Inr i by (cases r2) (simp_all add: load_project_def)
    then show ?thesis using k1 init_db_kept(1)[OF i] files_kept_trans by blast
  qed
qed

lemma db_get_project_Inr:
  "db_get_project p s = Inr row \<Longrightarrow> files s p = Some (Db [row])"
  by (auto simp add: db_get_project_def split: option.splits content.splits list.splits)

lemma load_project_Inr:
  assumes "load_project n s = (Inr p, s')" and "index s = Some (Yaml a ps)"
  shows "\<exists>folder. map_of (projects_of ps) n = Some folder
           \<and> files s' (store_of s folder) = Some (Db [p])
           \<and> files s (store_of s folder) = Some (Db [p])
           \<and> resolve s folder \<in> dirs s'"
proof -
  obtain r1 s1 where g: "get_project_db n s = (r1, s1)" by (cases "get_project_db n s")
  show ?thesis
  proof (cases r1)
    case (Inl e)
    then show ?thesis using assms g by (simp add: load_project_def)
  next
    case (Inr dbpath)
    obtain folder where f: "map_of (projects_of ps) n = Some folder" "dbpath = store_of s folder"
      "resolve s folder \<in> dirs s1"
      using get_project_db_Inr[OF _ assms(2)] g Inr by blast
    obtain r2 s2 where i: "init_db dbpath s1 = (r2, s2)" by (cases "init_db dbpath s1")
    have s2: "s' = s2 \<and> db_get_project dbpath s2 = Inr p \<and> r2 = Inr ()"
      using assms g Inr i by (cases r2) (auto simp add: load_project_def)
    then have after: "files s' dbpath = Some (Db [p])" using db_get_project_Inr by blast
    have "files s1 dbpath = Some (Db [p])"
      using i s2 after
      by (auto simp add: init_db_def split: option.splits content.splits if_splits)
    then have before: "files s dbpath = Some (Db [p])"
      using get_project_db_kept(2)[OF g] by simp
    have "resolve s folder \<in> dirs s'" using f(3) init_db_kept(2)[OF i] s2 by simp
    then show ?thesis using f after before by blast
  qed
qed

subsection \<open>Setting the active project\<close>

lemma active_db_kept:
  assumes "active_db s = (r, s')"
  shows "files_kept s s'"
  using assms get_project_db_kept(1)
  by (cases "get_active_project s") (auto simp add: active_db_def)

lemma set_active_unreadable:
  assumes "\<nexists>a ps. index s = Some (Yaml a ps)"
  shows "\<exists>e. set_active_project n s = (Inl e, s)"
  using read_index_fails[OF assms] by (auto simp add: set_active_project_def)

lemma set_active_index:
  assumes i: "index s = Some (Yaml a ps)" and run: "set_active_project n s = (r, s')"
  shows "stores_kept s s'"
    and "index s' = Some (Yaml a ps)
         \<or> (n \<in> set (map fst (projects_of ps)) \<and> index s' = Some (Yaml (Some n) ps))"
    and "\<And>x. r = Inr x \<Longrightarrow>
           x = n \<and> n \<in> set (map fst (projects_of ps)) \<and> index s' = Some (Yaml (Some n) ps)"
proof -
  have goal: "stores_kept s s'
     \<and> ((index s' = Some (Yaml a ps) \<and> (\<exists>e. r = Inl e))
        \<or> (n \<in> set (map fst (projects_of ps)) \<and> index s' = Some (Yaml (Some n) ps)
           \<and> (r = Inr n \<or> (\<exists>e. r = Inl e))))"
  proof (cases ps)
    case None
    then show ?thesis using i run by (auto simp add: set_active_project_def read_index)
  next
    case (Some projects)
    show ?thesis
    proof (cases "n \<in> set (map fst projects)")
      case False
      then show ?thesis using i run Some by (auto simp add: set_active_project_def read_index)
    next
      case True
      obtain r1 s1 where w: "write_yaml (index_file s) (Some n, Some projects) s = (r1, s1)"
        by (cases "write_yaml (index_file s) (Some n, Some projects) s")
      from write_yaml_index[OF i w]
      show ?thesis
      proof
        assume "r1 = Inl OSError \<and> s1 = s \<and> index_file s \<in> denied s"
        then show ?thesis using i run Some True w by (auto simp add: set_active_project_def read_index)
      next
        assume ok: "r1 = Inr () \<and> index_file s \<notin> denied s
          \<and> s1 = s\<lparr>files := (files s)(index_file s \<mapsto> Yaml (Some n) (Some projects))\<rparr>"
        then have i1: "index s1 = Some (Yaml (Some n) ps)" and k1: "stores_kept s s1"
          using Some by simp_all
        obtain r2 s2 where d: "active_db s1 = (r2, s2)" by (cases "active_db s1")
        note k2 = active_db_kept[OF d]
        have i2: "index s2 = Some (Yaml (Some n) ps)"
          using index_keptD[OF files_kept_index[OF k2] i1] .
        have k12: "stores_kept s s2"
          using stores_kept_trans[OF k1 files_kept_stores[OF k2]] .
        show ?thesis
        proof (cases r2)
          case (Inl e)
          then have "s' = s2 \<and> r = Inl e"
            using run i Some True w ok d by (auto simp add: set_active_project_def read_index)
          then show ?thesis using i2 k12 True Some by (simp add: projects_of_def)
        next
          case (Inr dbpath)
          obtain r3 s3 where g: "get_db dbpath s2 = (r3, s3)" by (cases "get_db dbpath s2")
          note k3 = get_db_kept[OF g]
          have i3: "index s3 = Some (Yaml (Some n) ps)"
            using index_keptD[OF files_kept_index[OF k3] i2] .
          have k13: "stores_kept s s3"
            using stores_kept_trans[OF k12 files_kept_stores[OF k3]] .
          have "s' = s3 \<and> (r = Inr n \<or> (\<exists>e. r = Inl e))"
            using run i Some True w ok d Inr g
            by (cases r3) (auto simp add: set_active_project_def read_index)
          then show ?thesis using i3 k13 True Some by (auto simp add: projects_of_def)
        qed
      qed
    qed
  qed
  show "stores_kept s s'" using goal by blast
  show "index s' = Some (Yaml a ps)
         \<or> (n \<in> set (map fst (projects_of ps)) \<and> index s' = Some (Yaml (Some n) ps))"
    using goal by blast
  show "\<And>x. r = Inr x \<Longrightarrow>
           x = n \<and> n \<in> set (map fst (projects_of ps)) \<and> index s' = Some (Yaml (Some n) ps)"
    using goal by auto
qed


subsection \<open>Creating a project\<close>


lemma new_project_unreadable:
  assumes "\<nexists>a ps. index s = Some (Yaml a ps)"
  shows "\<exists>e. new_project n dn de md fo act s = (Inl e, s)"
proof -
  obtain e where "load_projects s = Inl e"
    using load_projects_Inr[of s] assms by (cases "load_projects s") auto
  then show ?thesis by (simp add: new_project_def)
qed

lemma new_project_duplicate:
  assumes "load_projects s = Inr projects" and "lower n \<in> set (map fst projects)"
  shows "new_project n dn de md fo act s =
           (Inl (ValueError (''Project '' @ lower n @ '' exists, please use a unique name'')), s)"
  using assms by (simp add: new_project_def Let_def)

lemma new_project_unfold:
  assumes "load_projects s = Inr projects" and "lower n \<notin> set (map fst projects)"
  shows "new_project n dn de md fo act s =
     (case mkdir_if_doesnt_exist (resolve s (new_folder n fo)) s of
        (Inl e, s1) \<Rightarrow> (Inl e, s1)
      | (Inr u1, s1) \<Rightarrow>
     (case init_db (store_of s (new_folder n fo)) s1 of
        (Inl e, s2) \<Rightarrow> (Inl e, s2)
      | (Inr u2, s2) \<Rightarrow>
     (case db_insert_project (store_of s (new_folder n fo)) (new_record n dn de md) s2 of
        (Inl e, s3) \<Rightarrow> (Inl e, s3)
      | (Inr u3, s3) \<Rightarrow>
     (case write_projects (AList.update (lower n) (new_folder n fo) projects) s3 of
        (Inl e, s4) \<Rightarrow> (Inl e, s4)
      | (Inr u4, s4) \<Rightarrow>
          if act
          then (case set_active_project (lower n) s4 of
                  (Inl e, s5) \<Rightarrow> (Inl e, s5)
                | (Inr a, s5) \<Rightarrow> load_project (lower n) s5)
          else load_project (lower n) s4))))"
  using assms
  unfolding new_project_def Let_def resolve_def store_of_def new_folder_def new_record_def
  by simp

lemma new_project_index:
  assumes i: "index s = Some (Yaml a ps)"
    and fresh: "lower n \<notin> set (map fst (projects_of ps))"
    and run: "new_project n dn de md fo act s = (r, s')"
  defines "added \<equiv> AList.update (lower n) (new_folder n fo) (projects_of ps)"
  shows "same_env s s'"
    and "(index s' = Some (Yaml a ps) \<and> (\<exists>e. r = Inl e))
         \<or> index s' = Some (Yaml a (Some added))
         \<or> index s' = Some (Yaml (Some (lower n)) (Some added))"
    and "\<And>p. r = Inr p \<Longrightarrow>
           index s' = Some (Yaml (if act then Some (lower n) else a) (Some added))
           \<and> files s' (store_of s (new_folder n fo)) = Some (Db [p])
           \<and> p = new_record n dn de md
           \<and> resolve s (new_folder n fo) \<in> dirs s'"
proof -
  let ?name = "lower n"
  let ?folder = "new_folder n fo"
  let ?db = "store_of s ?folder"
  let ?row = "new_record n dn de md"
  have l: "load_projects s = Inr (projects_of ps)" using i by (rule load_projects_index)
  note unfold = new_project_unfold[OF l fresh, of dn de md fo act, folded added_def]
  have goal: "same_env s s'
     \<and> ((index s' = Some (Yaml a ps) \<and> (\<exists>e. r = Inl e))
        \<or> (index s' = Some (Yaml a (Some added)) \<and> (\<exists>e. r = Inl e))
        \<or> (index s' = Some (Yaml (Some ?name) (Some added)) \<and> act \<and> (\<exists>e. r = Inl e))
        \<or> (index s' = Some (Yaml (if act then Some ?name else a) (Some added))
            \<and> (\<exists>p. r = Inr p \<and> files s' ?db = Some (Db [p]) \<and> p = ?row)
            \<and> resolve s ?folder \<in> dirs s'))"
  proof -
    obtain r1 s1 where m: "mkdir_if_doesnt_exist (resolve s ?folder) s = (r1, s1)"
      by (cases "mkdir_if_doesnt_exist (resolve s ?folder) s")
    note k1 = mkdir_kept(2)[OF m]
    have i1: "index s1 = Some (Yaml a ps)" using index_keptD[OF files_kept_index[OF k1] i] .
    show ?thesis
    proof (cases r1)
      case (Inl e)
      then have "s' = s1 \<and> r = Inl e" using run unfold m by simp
      then show ?thesis using i1 files_kept_env[OF k1] by simp
    next
      case u1: (Inr u1)
      obtain r2 s2 where d: "init_db ?db s1 = (r2, s2)" by (cases "init_db ?db s1")
      note k2 = files_kept_trans[OF k1 init_db_kept(1)[OF d]]
      have i2: "index s2 = Some (Yaml a ps)" using index_keptD[OF files_kept_index[OF k2] i] .
      show ?thesis
      proof (cases r2)
        case (Inl e)
        then have "s' = s2 \<and> r = Inl e" using run unfold m u1 d by simp
        then show ?thesis using i2 files_kept_env[OF k2] by simp
      next
        case u2: (Inr u2)
        obtain r3 s3 where ins: "db_insert_project ?db ?row s2 = (r3, s3)"
          by (cases "db_insert_project ?db ?row s2")
        note k3 = index_kept_trans[OF files_kept_index[OF k2] db_insert_kept(1)[OF ins]]
        have i3: "index s3 = Some (Yaml a ps)" using index_keptD[OF k3 i] .
        have e3: "same_env s s3" using index_kept_env[OF k3] .
        show ?thesis
        proof (cases r3)
          case (Inl e)
          then have "s' = s3 \<and> r = Inl e" using run unfold m u1 d u2 ins by simp
          then show ?thesis using i3 e3 by simp
        next
          case u3: (Inr u3)
          obtain rows where f3: "files s3 ?db = Some (Db (rows @ [?row]))"
            using db_insert_done ins u3 by blast
          obtain r4 s4 where w: "write_projects added s3 = (r4, s4)"
            by (cases "write_projects added s3")
          from write_projects_index[OF i3 w]
          show ?thesis
          proof
            assume "r4 = Inl OSError \<and> s4 = s3 \<and> index_file s3 \<in> denied s3"
            then have "s' = s3 \<and> r = Inl OSError" using run unfold m u1 d u2 ins u3 w by simp
            then show ?thesis using i3 e3 by simp
          next
            assume ok: "r4 = Inr () \<and> index_file s3 \<notin> denied s3
              \<and> s4 = s3\<lparr>files := (files s3)(index_file s3 \<mapsto> Yaml a (Some added))\<rparr>"
            then have i4: "index s4 = Some (Yaml a (Some added))" and k4: "stores_kept s3 s4"
              by simp_all
            have e4: "same_env s s4" using same_env_trans[OF e3 stores_kept_env[OF k4]] .
            have db3: "?db \<noteq> index_file s3" by simp
            have f4: "files s4 ?db = Some (Db (rows @ [?row]))"
              using stores_keptD[OF k4 db3 f3] .
            have db4: "?db \<noteq> index_file s4" by simp
            have reg: "map_of (projects_of (Some added)) ?name = Some ?folder"
              by (simp add: projects_of_def added_def map_of_update_same)
            have loaded: "same_env s s''
               \<and> ((index s'' = Some (Yaml x (Some added)) \<and> (\<exists>e. r'' = Inl e))
                  \<or> (index s'' = Some (Yaml x (Some added))
                     \<and> (\<exists>p. r'' = Inr p \<and> files s'' ?db = Some (Db [p]) \<and> p = ?row)
                     \<and> resolve s ?folder \<in> dirs s''))"
              if lp: "load_project ?name s0 = (r'', s'')"
                and i0: "index s0 = Some (Yaml x (Some added))"
                and e0: "same_env s s0" and f0: "files s0 ?db = Some (Db (rows @ [?row]))"
              for s0 r'' s'' x
            proof -
              note k = load_project_kept[OF lp]
              have i': "index s'' = Some (Yaml x (Some added))"
                using index_keptD[OF files_kept_index[OF k] i0] .
              have e': "same_env s s''" using same_env_trans[OF e0 files_kept_env[OF k]] .
              have f': "files s'' ?db = Some (Db (rows @ [?row]))" using files_keptD[OF k f0] .
              show ?thesis
              proof (cases r'')
                case (Inl e)
                then show ?thesis using i' e' by simp
              next
                case (Inr p)
                obtain folder' where fo: "map_of (projects_of (Some added)) ?name = Some folder'"
                  "files s'' (store_of s0 folder') = Some (Db [p])"
                  "resolve s0 folder' \<in> dirs s''"
                  using load_project_Inr[OF _ i0] lp Inr by blast
                then have one: "files s'' ?db = Some (Db [p])"
                  using reg same_env_store_of[OF e0] by simp
                have made: "resolve s ?folder \<in> dirs s''"
                  using fo(1,3) reg same_env_resolve[OF e0] by simp
                have "p = ?row" using f' one by simp
                then show ?thesis using Inr i' e' f' one made by simp
              qed
            qed
            show ?thesis
            proof (cases act)
              case False
              then have lp: "load_project ?name s4 = (r, s')"
                using run unfold m u1 d u2 ins u3 w ok by simp
              show ?thesis using loaded[OF lp i4 e4 f4] False by auto
            next
              case True
              obtain r5 s5 where sa: "set_active_project ?name s4 = (r5, s5)"
                by (cases "set_active_project ?name s4")
              note a = set_active_index[OF i4 sa]
              have e5: "same_env s s5" using same_env_trans[OF e4 stores_kept_env[OF a(1)]] .
              have f5: "files s5 ?db = Some (Db (rows @ [?row]))"
                using stores_keptD[OF a(1) db4 f4] .
              show ?thesis
              proof (cases r5)
                case (Inl e)
                then have "s' = s5 \<and> r = Inl e"
                  using run unfold m u1 d u2 ins u3 w ok True sa by simp
                then show ?thesis using a(2) e5 True by auto
              next
                case (Inr x)
                then have i5: "index s5 = Some (Yaml (Some ?name) (Some added))"
                  using a(3) by blast
                have lp: "load_project ?name s5 = (r, s')"
                  using run unfold m u1 d u2 ins u3 w ok True sa Inr by simp
                show ?thesis using loaded[OF lp i5 e5 f5] True by auto
              qed
            qed
          qed
        qed
      qed
    qed
  qed
  show "same_env s s'" using goal by blast
  show "(index s' = Some (Yaml a ps) \<and> (\<exists>e. r = Inl e))
         \<or> index s' = Some (Yaml a (Some added))
         \<or> index s' = Some (Yaml (Some (lower n)) (Some added))"
    using goal by (auto split: if_splits)
  show "\<And>p. r = Inr p \<Longrightarrow>
           index s' = Some (Yaml (if act then Some (lower n) else a) (Some added))
           \<and> files s' (store_of s (new_folder n fo)) = Some (Db [p])
           \<and> p = new_record n dn de md
           \<and> resolve s (new_folder n fo) \<in> dirs s'"
    using goal by auto
qed


subsection \<open>Removing a project\<close>


lemma remove_project_unknown:
  "load_projects s = Inr projects \<Longrightarrow> n \<notin> set (map fst projects) \<Longrightarrow>
     remove_project n s = (Inr (Dict projects), s)"
  by (simp add: remove_project_def)

lemma delete_project_unknown:
  "load_projects s = Inr projects \<Longrightarrow> n \<notin> set (map fst projects) \<Longrightarrow>
     delete_project n s = (Inr (Dict projects), s)"
  by (simp add: delete_project_def)

lemma add_project_duplicate:
  assumes "load_projects s = Inr projects" and "lower n \<in> set (map fst projects)"
  shows "add_project n path act s =
           (Inl (ValueError (''Project '' @ lower n @ '' exists, please use a unique name'')), s)"
  using assms by (simp add: add_project_def Let_def)

lemma new_project_registers:
  assumes "new_project n dn de md fo act s = (Inr p, s')"
  shows "\<exists>projects. load_projects s' = Inr projects \<and> lower n \<in> set (map fst projects)"
proof -
  obtain a ps where i: "index s = Some (Yaml a ps)"
    using new_project_unreadable[of s n dn de md fo act] assms by auto
  show ?thesis
  proof (cases "lower n \<in> set (map fst (projects_of ps))")
    case True
    then show ?thesis
      using new_project_duplicate[OF load_projects_index[OF i] True, of dn de md fo act] assms
      by simp
  next
    case False
    have "index s' = Some (Yaml (if act then Some (lower n) else a)
             (Some (AList.update (lower n) (new_folder n fo) (projects_of ps))))"
      using new_project_index(3)[OF i False assms refl] by blast
    from load_projects_index[OF this] show ?thesis
      by (simp add: projects_of_def dom_update)
  qed
qed


lemma delete_project_unreadable:
  assumes "\<nexists>a ps. index s = Some (Yaml a ps)"
  shows "\<exists>e. delete_project n s = (Inl e, s)"
proof -
  obtain e where "load_projects s = Inl e"
    using load_projects_Inr[of s] assms by (cases "load_projects s") auto
  then show ?thesis by (simp add: delete_project_def)
qed




subsection \<open>Adding a project\<close>

lemma set_active_succeeds:
  assumes i: "index s = Some (Yaml a (Some projects))"
    and reg: "map_of projects n = Some folder"
    and w: "index_file s \<notin> denied s"
    and d: "resolve s folder \<in> dirs s"
    and f: "files s (store_of s folder) = Some (Db rows)"
  shows "\<exists>s'. set_active_project n s = (Inr n, s')"
proof -
  let ?s1 = "s\<lparr>files := (files s)(index_file s \<mapsto> Yaml (Some n) (Some projects))\<rparr>"
  have k: "n \<in> set (map fst projects)" using reg by (rule map_of_key)
  have wr: "write_yaml (index_file s) (Some n, Some projects) s = (Inr (), ?s1)"
    using i w by (simp add: write_yaml_def index_def)
  have i1: "index ?s1 = Some (Yaml (Some n) (Some projects))" by simp
  have e1: "same_env s ?s1" by simp
  have m: "mkdir_if_doesnt_exist (resolve ?s1 folder) ?s1 = (Inr (), ?s1)"
    using d by (simp add: mkdir_there same_env_resolve[OF e1])
  have g: "get_project_db n ?s1 = (Inr (store_of s folder), ?s1)"
    using load_projects_index[OF i1] k reg m
    by (simp add: get_project_db_def projects_of_def Let_def resolve_def store_of_def)
  have ad: "active_db ?s1 = (Inr (store_of s folder), ?s1)"
    using get_active_index[OF i1] g by (simp add: active_db_def active_of_def)
  have f1: "files ?s1 (store_of s folder) = Some (Db rows)" using f by simp
  have "get_db (store_of s folder) ?s1 = (Inr (), ?s1\<lparr>connection := Some (store_of s folder)\<rparr>)"
    using init_db_there[OF f1] by (simp add: get_db_def)
  then show ?thesis
    using i k wr ad by (simp add: set_active_project_def read_index)
qed

lemma add_project_unreadable:
  assumes "\<nexists>a ps. index s = Some (Yaml a ps)"
  shows "\<exists>e. add_project n path act s = (Inl e, s)"
proof -
  obtain e where "load_projects s = Inl e"
    using load_projects_Inr[of s] assms by (cases "load_projects s") auto
  then show ?thesis by (simp add: add_project_def)
qed

lemma add_project_missing_path:
  assumes "\<not> path_exists path s"
  shows "\<exists>e. add_project n path act s = (Inl e, s)"
  using assms by (cases "load_projects s") (simp_all add: add_project_def Let_def)

lemma add_project_outcome:
  assumes i: "index s = Some (Yaml a ps)"
    and fresh: "lower n \<notin> set (map fst (projects_of ps))"
    and ex: "path_exists path s"
    and run: "add_project n path act s = (r, s')"
  defines "added \<equiv> AList.update (lower n) path (projects_of ps)"
  shows "same_env s s'"
    and "\<And>e. r = Inl e \<Longrightarrow>
           \<exists>ps'. index s' = Some (Yaml a ps') \<and> projects_of ps' = projects_of ps"
    and "\<And>p. r = Inr p \<Longrightarrow>
           index s' = Some (Yaml (if act then Some (lower n) else a) (Some added))
           \<and> files s (store_of s path) = Some (Db [p])"
    and "\<And>e. r = Inl e \<Longrightarrow> index_file s \<notin> denied s \<Longrightarrow>
           r = Inl (ValueError (''Invalid Project Folder: '' @ path))
           \<and> index s' = Some (Yaml a (Some (projects_of ps)))"
proof -
  let ?name = "lower n"
  have l: "load_projects s = Inr (projects_of ps)" using i by (rule load_projects_index)
  have key: "?name \<in> set (map fst added)" by (simp add: added_def dom_update)
  have undo: "AList.delete ?name added = projects_of ps"
    using fresh by (simp add: added_def delete_update_fresh)
  have reg: "map_of added ?name = Some path" by (simp add: added_def map_of_update_same)
  have unfold: "add_project n path act s =
     (case (case write_projects added s of
              (Inl e, s1) \<Rightarrow> (Inl e, s1)
            | (Inr u, s1) \<Rightarrow> load_project ?name s1) of
        (Inl e, s2) \<Rightarrow>
          (case write_projects (projects_of ps) s2 of
             (Inl e', s3) \<Rightarrow> (Inl e', s3)
           | (Inr u, s3) \<Rightarrow> (Inl (ValueError (''Invalid Project Folder: '' @ path)), s3))
      | (Inr project, s2) \<Rightarrow>
          if act
          then (case set_active_project ?name s2 of
                  (Inl e, s3) \<Rightarrow> (Inl e, s3)
                | (Inr a, s3) \<Rightarrow> (Inr project, s3))
          else (Inr project, s2))"
    using l fresh ex key[unfolded added_def] undo[unfolded added_def]
    unfolding add_project_def Let_def added_def
    by (simp split: prod.splits sum.splits)
  obtain r1 s1 where w: "write_projects added s = (r1, s1)" by (cases "write_projects added s")
  have goal: "same_env s s'
     \<and> ((\<exists>e. r = Inl e) \<longrightarrow>
          (\<exists>ps'. index s' = Some (Yaml a ps') \<and> projects_of ps' = projects_of ps)
          \<and> (index_file s \<notin> denied s \<longrightarrow>
                r = Inl (ValueError (''Invalid Project Folder: '' @ path))
                \<and> index s' = Some (Yaml a (Some (projects_of ps)))))
     \<and> (\<forall>p. r = Inr p \<longrightarrow>
          index s' = Some (Yaml (if act then Some ?name else a) (Some added))
          \<and> files s (store_of s path) = Some (Db [p]))"
  proof -
    from write_projects_index[OF i w]
    show ?thesis
    proof
      assume fail: "r1 = Inl OSError \<and> s1 = s \<and> index_file s \<in> denied s"
      obtain r3 s3 where w3: "write_projects (projects_of ps) s = (r3, s3)"
        by (cases "write_projects (projects_of ps) s")
      have "r3 = Inl OSError \<and> s3 = s" using write_projects_index[OF i w3] fail by auto
      then have "r = Inl OSError \<and> s' = s" using run unfold w fail w3 by simp
      then show ?thesis using i fail by auto
    next
      assume ok: "r1 = Inr () \<and> index_file s \<notin> denied s
        \<and> s1 = s\<lparr>files := (files s)(index_file s \<mapsto> Yaml a (Some added))\<rparr>"
      then have i1: "index s1 = Some (Yaml a (Some added))" and k1: "stores_kept s s1"
        by simp_all
      have e1: "same_env s s1" using stores_kept_env[OF k1] .
      obtain r2 s2 where lp: "load_project ?name s1 = (r2, s2)"
        by (cases "load_project ?name s1")
      note k2 = load_project_kept[OF lp]
      have i2: "index s2 = Some (Yaml a (Some added))"
        using index_keptD[OF files_kept_index[OF k2] i1] .
      have e2: "same_env s s2" using same_env_trans[OF e1 files_kept_env[OF k2]] .
      have w2: "index_file s2 \<notin> denied s2"
        using ok e2 by (simp add: same_env_def index_file_def)
      show ?thesis
      proof (cases r2)
        case (Inl e)
        obtain r3 s3 where w3: "write_projects (projects_of ps) s2 = (r3, s3)"
          by (cases "write_projects (projects_of ps) s2")
        have s3: "r3 = Inr ()
            \<and> s3 = s2\<lparr>files := (files s2)(index_file s2 \<mapsto> Yaml a (Some (projects_of ps)))\<rparr>"
          using write_projects_index[OF i2 w3] w2 by auto
        have "r = Inl (ValueError (''Invalid Project Folder: '' @ path)) \<and> s' = s3"
          using run unfold w ok lp Inl w3 s3 by simp
        moreover have "index s3 = Some (Yaml a (Some (projects_of ps)))" using s3 by simp
        moreover have "same_env s s3" using e2 s3 by (simp add: same_env_def)
        ultimately show ?thesis by (auto simp add: projects_of_def)
      next
        case (Inr p)
        obtain folder where fo: "map_of (projects_of (Some added)) ?name = Some folder"
          "files s2 (store_of s1 folder) = Some (Db [p])"
          "files s1 (store_of s1 folder) = Some (Db [p])"
          "resolve s1 folder \<in> dirs s2"
          using load_project_Inr[OF _ i1] lp Inr by blast
        have folder: "folder = path" using fo(1) reg by (simp add: projects_of_def)
        have before: "files s (store_of s path) = Some (Db [p])"
          using fo(3) ok folder same_env_store_of[OF e1] by (simp split: if_splits)
        have f2: "files s2 (store_of s2 path) = Some (Db [p])"
          using fo(2) folder same_env_store_of[OF e1] same_env_store_of[OF e2] by simp
        have d2: "resolve s2 path \<in> dirs s2"
          using fo(4) folder same_env_resolve[OF e1] same_env_resolve[OF e2] by simp
        show ?thesis
        proof (cases act)
          case False
          then have "r = Inr p \<and> s' = s2" using run unfold w ok lp Inr by simp
          then show ?thesis using i2 e2 before False by simp
        next
          case True
          obtain s3 where sa: "set_active_project ?name s2 = (Inr ?name, s3)"
            using set_active_succeeds[OF i2 reg w2 d2 f2] by blast
          have "r = Inr p \<and> s' = s3" using run unfold w ok lp Inr True sa by simp
          moreover have "index s3 = Some (Yaml (Some ?name) (Some added))"
            using set_active_index(3)[OF i2 sa refl] by blast
          moreover have "same_env s s3"
            using same_env_trans[OF e2 stores_kept_env[OF set_active_index(1)[OF i2 sa]]] .
          ultimately show ?thesis using before True by simp
        qed
      qed
    qed
  qed
  show "same_env s s'" using goal by blast
  show "\<And>e. r = Inl e \<Longrightarrow>
           \<exists>ps'. index s' = Some (Yaml a ps') \<and> projects_of ps' = projects_of ps"
    using goal by blast
  show "\<And>p. r = Inr p \<Longrightarrow>
           index s' = Some (Yaml (if act then Some (lower n) else a) (Some added))
           \<and> files s (store_of s path) = Some (Db [p])"
    using goal by blast
  show "\<And>e. r = Inl e \<Longrightarrow> index_file s \<notin> denied s \<Longrightarrow>
           r = Inl (ValueError (''Invalid Project Folder: '' @ path))
           \<and> index s' = Some (Yaml a (Some (projects_of ps)))"
    using goal by blast
qed

section \<open>Rejected and ignored calls\<close>

lemma example_index [simp]:
  "index (example_state a ns) = Some (Yaml (Some a) (Some (map (\<lambda>n. (n, n)) ns)))"
  by (simp add: index_def index_file_def path_join_def PROJECT_INDEX_FILE_def example_state_def)

lemma example_state_simps [simp]:
  "get_projects (example_state a ns) = Inr ns"
  "load_projects (example_state a ns) = Inr (map (\<lambda>n. (n, n)) ns)"
  "get_active_project (example_state a ns) = Inr a"
  by (simp_all add: get_projects_index load_projects_index get_active_index projects_of_def
      active_of_def comp_def)

text \<open>
  Claim C4. When the lower-cased name is already a key of the registry, \<^verbatim>\<open>new_project\<close>
  raises ValueError and leaves the whole state as it was (the registry and the active
  pointer with it); \<^verbatim>\<open>add_project\<close> does the same. In particular, after a
  \<^verbatim>\<open>new_project\<close> that returned, a second \<^verbatim>\<open>new_project\<close> of the name raises and changes
  nothing of what the first one left.
\<close>

theorem duplicate_name_rejected:
  "(load_projects s = Inr projects \<and> lower name \<in> set (map fst projects) \<longrightarrow>
      new_project name dn de md fo act s =
        (Inl (ValueError (''Project '' @ lower name @ '' exists, please use a unique name'')), s)
      \<and> add_project name path act s =
        (Inl (ValueError (''Project '' @ lower name @ '' exists, please use a unique name'')), s))
   \<and> (new_project name dn de md fo act s = (Inr p, s1) \<longrightarrow>
        new_project name dn' de' md' fo' act' s1 =
          (Inl (ValueError (''Project '' @ lower name @ '' exists, please use a unique name'')), s1))"
proof (intro conjI impI)
  assume a: "load_projects s = Inr projects \<and> lower name \<in> set (map fst projects)"
  then show "new_project name dn de md fo act s =
        (Inl (ValueError (''Project '' @ lower name @ '' exists, please use a unique name'')), s)"
    using new_project_duplicate by blast
  from a show "add_project name path act s =
        (Inl (ValueError (''Project '' @ lower name @ '' exists, please use a unique name'')), s)"
    using add_project_duplicate by blast
next
  assume "new_project name dn de md fo act s = (Inr p, s1)"
  then obtain ps where "load_projects s1 = Inr ps" "lower name \<in> set (map fst ps)"
    using new_project_registers by blast
  then show "new_project name dn' de' md' fo' act' s1 =
          (Inl (ValueError (''Project '' @ lower name @ '' exists, please use a unique name'')), s1)"
    by (rule new_project_duplicate)
qed

theorem duplicate_name_rejected_witness:
  "new_project ''Test'' None None None None True (example_state ''default'' [''default'', ''test''])
     = (Inl (ValueError ''Project test exists, please use a unique name''),
        example_state ''default'' [''default'', ''test''])
   \<and> add_project ''Test'' ''/data/test'' True (example_state ''default'' [''default'', ''test''])
     = (Inl (ValueError ''Project test exists, please use a unique name''),
        example_state ''default'' [''default'', ''test''])
   \<and> fst (new_project ''Test'' None None None None True (example_state ''default'' [''default'']))
     = Inr \<lparr>display_name = ''test'', description = [], metadata = []\<rparr>
   \<and> new_project ''Test'' (Some ''Another'') None None (Some ''/data/another'') False
        (snd (new_project ''Test'' None None None None True (example_state ''default'' [''default''])))
     = (Inl (ValueError ''Project test exists, please use a unique name''),
        snd (new_project ''Test'' None None None None True (example_state ''default'' [''default''])))"
proof -
  have l: "lower ''Test'' = ''test''" by code_simp
  have f: "fst (new_project ''Test'' None None None None True (example_state ''default'' [''default'']))
     = Inr \<lparr>display_name = ''test'', description = [], metadata = []\<rparr>"
    by code_simp
  then have r: "new_project ''Test'' None None None None True (example_state ''default'' [''default''])
     = (Inr \<lparr>display_name = ''test'', description = [], metadata = []\<rparr>,
        snd (new_project ''Test'' None None None None True (example_state ''default'' [''default''])))"
    by (simp add: prod_eq_iff)
  show ?thesis
    using duplicate_name_rejected[of "example_state ''default'' [''default'', ''test'']"
        "[(''default'', ''default''), (''test'', ''test'')]" "''Test''"
        None None None None True "''/data/test''"]
      duplicate_name_rejected[of "example_state ''default'' [''default'']" "[]" "''Test''"
        None None None None True "''/data/test''"
        "\<lparr>display_name = ''test'', description = [], metadata = []\<rparr>"
        "snd (new_project ''Test'' None None None None True (example_state ''default'' [''default'']))"
        "Some ''Another''" None None "Some ''/data/another''" False]
      f r
    by (simp add: l)
qed

text \<open>
  Claim C5. For a name that is not in the registry, \<^verbatim>\<open>delete_project\<close> and
  \<^verbatim>\<open>remove_project\<close> raise nothing, return the registry as loaded, and leave the whole
  state as it was: the registry, the active pointer, the directories and the stores.
\<close>

theorem delete_unknown_is_noop:
  "load_projects s = Inr projects \<Longrightarrow> name \<notin> set (map fst projects) \<Longrightarrow>
     delete_project name s = (Inr (Dict projects), s)
     \<and> remove_project name s = (Inr (Dict projects), s)"
  by (simp add: delete_project_unknown remove_project_unknown)

theorem delete_unknown_is_noop_witness:
  "delete_project ''nope'' (example_state ''p1'' [''default'', ''p1''])
     = (Inr (Dict [(''default'', ''default''), (''p1'', ''p1'')]), example_state ''p1'' [''default'', ''p1''])
   \<and> remove_project ''nope'' (example_state ''p1'' [''default'', ''p1''])
     = (Inr (Dict [(''default'', ''default''), (''p1'', ''p1'')]), example_state ''p1'' [''default'', ''p1''])"
  using delete_unknown_is_noop[of "example_state ''p1'' [''default'', ''p1'']"
      "[(''default'', ''default''), (''p1'', ''p1'')]" "''nope''"]
  by simp

section \<open>Failure of \<^verbatim>\<open>add_project\<close>\<close>

text \<open>
  Claim C6. \<^verbatim>\<open>add_project\<close> on a path that does not exist raises with the state untouched.
  On an existing path and a new name, when the store of the folder (the file
  \<^verbatim>\<open>metadata.db\<close> in the folder as \<^verbatim>\<open>_get_project_db\<close> resolves it) does not hold exactly
  one project record, the call raises \<^verbatim>\<open>ValueError('Invalid Project Folder: ...')\<close> and the
  index holds the registry it held before the call (the index file being one that can
  be written: the entry is written and taken back). With such a store the call raises
  whatever the name and the path are. Whenever \<^verbatim>\<open>add_project\<close> raises, for whatever
  reason, the registry and the active pointer after the call are those before it.
\<close>

theorem add_project_failure_rolled_back:
  "(\<not> path_exists path s \<longrightarrow> (\<exists>e. add_project name path act s = (Inl e, s)))
   \<and> (load_projects s = Inr projects \<and> index_file s \<notin> denied s
        \<and> path_exists path s \<and> lower name \<notin> set (map fst projects)
        \<and> (\<nexists>row. files s (store_of s path) = Some (Db [row])) \<longrightarrow>
       fst (add_project name path act s) = Inl (ValueError (''Invalid Project Folder: '' @ path))
       \<and> load_projects (snd (add_project name path act s)) = Inr projects)
   \<and> ((\<nexists>row. files s (store_of s path) = Some (Db [row])) \<longrightarrow>
       (\<exists>e. fst (add_project name path act s) = Inl e))
   \<and> (\<forall>e. fst (add_project name path act s) = Inl e \<longrightarrow>
        load_projects (snd (add_project name path act s)) = load_projects s
        \<and> get_active_project (snd (add_project name path act s)) = get_active_project s)"
proof -
  obtain r s' where run: "add_project name path act s = (r, s')"
    by (cases "add_project name path act s")
  have raises: "\<exists>e. r = Inl e"
    if bad: "\<nexists>row. files s (store_of s path) = Some (Db [row])"
  proof (cases "\<exists>a ps. index s = Some (Yaml a ps)")
    case False
    then show ?thesis using add_project_unreadable[of s name path act] run by auto
  next
    case True
    then obtain a ps where i: "index s = Some (Yaml a ps)" by blast
    show ?thesis
    proof (cases "lower name \<in> set (map fst (projects_of ps))")
      case True
      then show ?thesis
        using add_project_duplicate[OF load_projects_index[OF i], of name path act] run by simp
    next
      case fresh: False
      show ?thesis
      proof (cases "path_exists path s")
        case False
        then show ?thesis using add_project_missing_path[of path s name act] run by auto
      next
        case True
        show ?thesis
          using add_project_outcome(3)[OF i fresh True run] bad by (cases r) auto
      qed
    qed
  qed
  have same: "load_projects s' = load_projects s \<and> get_active_project s' = get_active_project s"
    if fail: "r = Inl e" for e
  proof (cases "\<exists>a ps. index s = Some (Yaml a ps)")
    case False
    then show ?thesis using add_project_unreadable[of s name path act] run by auto
  next
    case True
    then obtain a ps where i: "index s = Some (Yaml a ps)" by blast
    show ?thesis
    proof (cases "lower name \<in> set (map fst (projects_of ps))")
      case True
      then show ?thesis
        using add_project_duplicate[OF load_projects_index[OF i], of name path act] run by simp
    next
      case fresh: False
      show ?thesis
      proof (cases "path_exists path s")
        case False
        then show ?thesis using add_project_missing_path[of path s name act] run by auto
      next
        case True
        obtain ps' where "index s' = Some (Yaml a ps')" "projects_of ps' = projects_of ps"
          using add_project_outcome(2)[OF i fresh True run fail] by blast
        then show ?thesis
          using load_projects_index[of s' a ps'] get_active_index[of s' a ps']
            load_projects_index[OF i] get_active_index[OF i] by simp
      qed
    qed
  qed
  have invalid: "r = Inl (ValueError (''Invalid Project Folder: '' @ path))
        \<and> load_projects s' = Inr projects"
    if h: "load_projects s = Inr projects \<and> index_file s \<notin> denied s
        \<and> path_exists path s \<and> lower name \<notin> set (map fst projects)
        \<and> (\<nexists>row. files s (store_of s path) = Some (Db [row]))"
  proof -
    obtain a ps where i: "index s = Some (Yaml a ps)" and p: "projects = projects_of ps"
      using load_projects_Inr[of s projects] h by blast
    have fresh: "lower name \<notin> set (map fst (projects_of ps))" using h p by simp
    from h have ex: "path_exists path s" and w: "index_file s \<notin> denied s"
      and bad: "\<nexists>row. files s (store_of s path) = Some (Db [row])" by blast+
    obtain e where e: "r = Inl e" using raises[OF bad] by blast
    have "r = Inl (ValueError (''Invalid Project Folder: '' @ path))
           \<and> index s' = Some (Yaml a (Some (projects_of ps)))"
      using add_project_outcome(4)[OF i fresh ex run e w] .
    then show ?thesis
      using load_projects_index[of s' a "Some (projects_of ps)"] p by (simp add: projects_of_def)
  qed
  show ?thesis
    using run raises same invalid add_project_missing_path[of path s name act]
    by (auto simp del: not_ex)
qed

theorem add_project_failure_rolled_back_witness:
  "(\<exists>e. add_project ''new'' ''/nowhere'' True
          ((example_state ''default'' [''default''])
             \<lparr>dirs := {''/quest'', ''/quest/projects'', ''/quest/projects/default'',
                       ''/data'', ''/data/empty''}\<rparr>)
        = (Inl e, (example_state ''default'' [''default''])
             \<lparr>dirs := {''/quest'', ''/quest/projects'', ''/quest/projects/default'',
                       ''/data'', ''/data/empty''}\<rparr>))
   \<and> fst (add_project ''new'' ''/data/empty'' True
          ((example_state ''default'' [''default''])
             \<lparr>dirs := {''/quest'', ''/quest/projects'', ''/quest/projects/default'',
                       ''/data'', ''/data/empty''}\<rparr>))
       = Inl (ValueError ''Invalid Project Folder: /data/empty'')
   \<and> load_projects (snd (add_project ''new'' ''/data/empty'' True
          ((example_state ''default'' [''default''])
             \<lparr>dirs := {''/quest'', ''/quest/projects'', ''/quest/projects/default'',
                       ''/data'', ''/data/empty''}\<rparr>)))
       = Inr [(''default'', ''default'')]
   \<and> get_active_project (snd (add_project ''new'' ''/data/empty'' True
          ((example_state ''default'' [''default''])
             \<lparr>dirs := {''/quest'', ''/quest/projects'', ''/quest/projects/default'',
                       ''/data'', ''/data/empty''}\<rparr>)))
       = Inr ''default''"
proof -
  let ?s = "(example_state ''default'' [''default''])
             \<lparr>dirs := {''/quest'', ''/quest/projects'', ''/quest/projects/default'',
                       ''/data'', ''/data/empty''}\<rparr>"
  have l: "lower ''new'' = ''new''" by code_simp
  have p: "load_projects ?s = Inr [(''default'', ''default'')]"
    "get_active_project ?s = Inr ''default''"
    by code_simp+
  have w: "index_file ?s \<notin> denied ?s" by (simp add: example_state_def)
  have d: "\<not> path_exists ''/nowhere'' ?s" "path_exists ''/data/empty'' ?s"
    by code_simp+
  have "files ?s (store_of ?s ''/data/empty'') = None" by code_simp
  then have st: "\<nexists>row. files ?s (store_of ?s ''/data/empty'') = Some (Db [row])" by simp
  have f: "fst (add_project ''new'' ''/data/empty'' True ?s)
      = Inl (ValueError ''Invalid Project Folder: /data/empty'')"
    using add_project_failure_rolled_back[of "''/data/empty''" ?s "''new''" True
        "[(''default'', ''default'')]"] d st l p w
    by simp
  show ?thesis
    using add_project_failure_rolled_back[of "''/nowhere''" ?s "''new''" True
        "[(''default'', ''default'')]"]
      add_project_failure_rolled_back[of "''/data/empty''" ?s "''new''" True
        "[(''default'', ''default'')]"] d st l p w f
    by simp
qed


section \<open>The policy for the active pointer\<close>






section \<open>The active pointer stays valid\<close>


lemma active_of_Some [simp]: "active_of (Some n) = n"
  by (simp add: active_of_def)

lemma projects_of_Some [simp]: "projects_of (Some ps) = ps"
  by (simp add: projects_of_def)





section \<open>Sequences of calls\<close>

lemma returned_simps [simp]:
  "snd (returned out) = snd out"
  "fst (returned out) \<longleftrightarrow> (\<exists>v. fst out = Inr v)"
  by (cases out; cases "fst out"; simp add: returned_def)+















end
